theory Spec2Isabelle
  imports Complex_Main "HOL-Library.Word"
begin

section \<open>SmartStream training scripts: data and environment\<close>

text \<open>
  The repository holds three Python scripts under \<^verbatim>\<open>ai-training/\<close>.
  \<^verbatim>\<open>train_real_model.py\<close> and \<^verbatim>\<open>train_silesia.py\<close> compute a feature vector and
  a ground-truth label per file; \<^verbatim>\<open>train_model.py\<close> trains on six literal rows.

  A Python \<^verbatim>\<open>bytes\<close> object is a list of 8-bit words, a Python \<^verbatim>\<open>int\<close> that is a
  length is a \<open>nat\<close>, an \<^verbatim>\<open>int\<close> that may go negative is an \<open>int\<close>.  An exception is a
  value of \<open>pyerr\<close> on the left of a sum.
\<close>

type_synonym byte = "8 word"
type_synonym bytes = "byte list"

datatype pyerr =
    BrotliError
  | ZstdError
  | MemoryError
  | OverflowError
  | ZeroDivisionError
  | OSError
  | IndexError

subsection \<open>The two codecs\<close>

text \<open>
  \<^verbatim>\<open>brotli.compress\<close> and \<^verbatim>\<open>ZstdCompressor(level=...).compress\<close> are library
  calls: they are parameters of the model.  Brotli's quality is \<open>None\<close> when the call
  passes no \<^verbatim>\<open>quality=\<close> argument (the library then uses its default, the maximum
  quality 11) and \<open>Some q\<close> for \<^verbatim>\<open>quality=q\<close>.  A call either raises or returns bytes.
  Every call is recorded, in order, in a list of \<open>codec_call\<close>.
\<close>

record codecs =
  brotli_compress :: "nat option \<Rightarrow> bytes \<Rightarrow> pyerr + bytes"
  zstd_compress :: "nat \<Rightarrow> bytes \<Rightarrow> pyerr + bytes"

datatype codec_call = BrotliCall "nat option" | ZstdCall nat

subsection \<open>Python's \<^verbatim>\<open>int * float\<close> and \<^verbatim>\<open>int < float\<close>\<close>

text \<open>
  \<^verbatim>\<open>original_size * 0.95\<close> converts the \<^verbatim>\<open>int\<close> to an IEEE-754 double (round to
  nearest, ties to even; \<^verbatim>\<open>OverflowError\<close> when the result is not finite), multiplies
  two doubles (one rounding) and the comparison of an \<^verbatim>\<open>int\<close> with a \<^verbatim>\<open>float\<close> is exact.
  A non-negative finite double is \<open>mant * 2 ^ expo\<close> with a mantissa of at most 53 bits.
  Only non-negative values occur here, and a product with a literal below 1 of a value
  at least 1 neither overflows nor is subnormal, so the exponent range is checked in the
  conversion only.
\<close>

fun bit_length :: "nat \<Rightarrow> nat" where
  "bit_length n = (if n = 0 then 0 else Suc (bit_length (n div 2)))"

declare bit_length.simps [simp del]

definition round_half_even :: "nat \<Rightarrow> nat \<Rightarrow> nat" where
  "round_half_even k e =
     (let q = k div 2 ^ e; r = k mod 2 ^ e
      in if 2 ^ e < 2 * r \<or> (2 * r = 2 ^ e \<and> odd q) then q + 1 else q)"

record pyfloat =
  mant :: nat
  expo :: int

definition fval :: "pyfloat \<Rightarrow> real" where
  "fval f = real (mant f) * 2 powi (expo f)"

definition to_double :: "nat \<Rightarrow> int \<Rightarrow> pyfloat" where
  "to_double k x =
     (let e = (if bit_length k \<le> 53 then 0 else bit_length k - 53)
      in \<lparr>mant = round_half_even k e, expo = x + int e\<rparr>)"

definition int_to_float :: "nat \<Rightarrow> pyerr + pyfloat" where
  "int_to_float n =
     (let f = to_double n 0
      in if 2 ^ 1024 \<le> mant f * 2 ^ nat (expo f) then Inl OverflowError else Inr f)"

definition float_mul :: "pyfloat \<Rightarrow> pyfloat \<Rightarrow> pyfloat" where
  "float_mul x y = to_double (mant x * mant y) (expo x + expo y)"

definition int_mul_float :: "nat \<Rightarrow> pyfloat \<Rightarrow> pyerr + pyfloat" where
  "int_mul_float n y =
     (case int_to_float n of Inl e \<Rightarrow> Inl e | Inr x \<Rightarrow> Inr (float_mul x y))"

definition int_gt_float :: "nat \<Rightarrow> pyfloat \<Rightarrow> bool" where
  "int_gt_float a f =
     (if 0 \<le> expo f then mant f * 2 ^ nat (expo f) < a
      else mant f < a * 2 ^ nat (- expo f))"

definition int_lt_float :: "nat \<Rightarrow> pyfloat \<Rightarrow> bool" where
  "int_lt_float a f =
     (if 0 \<le> expo f then a < mant f * 2 ^ nat (expo f)
      else a * 2 ^ nat (- expo f) < mant f)"

text \<open>The doubles that the literals \<^verbatim>\<open>0.95\<close> and \<^verbatim>\<open>0.98\<close> denote.\<close>

definition lit_0_95 :: pyfloat where
  "lit_0_95 = \<lparr>mant = 8556839292003942, expo = - 53\<rparr>"

definition lit_0_98 :: pyfloat where
  "lit_0_98 = \<lparr>mant = 8827055269646172, expo = - 53\<rparr>"

section \<open>Ground truth: the codec race and the label\<close>

text \<open>
  \<^verbatim>\<open>get_best_algo\<close> of \<^verbatim>\<open>train_real_model.py\<close>, on the bytes that \<^verbatim>\<open>f.read()\<close>
  returned.  The Brotli call sits in \<^verbatim>\<open>try: ... except: brotli_size = original_size\<close>;
  the Zstd call is not in a \<^verbatim>\<open>try\<close>.  The result is the list of codec calls made and
  the label (0 Brotli, 1 Zstd, 2 None) or the exception that left the function.
\<close>

definition get_best_algo :: "codecs \<Rightarrow> bytes \<Rightarrow> codec_call list \<times> (pyerr + nat)" where
  "get_best_algo cd data =
     (let original_size = length data in
      if original_size = 0 then ([], Inr 2)
      else
        let brotli_size =
              (case brotli_compress cd None data of
                 Inr out \<Rightarrow> length out
               | Inl _ \<Rightarrow> original_size);
            calls = [BrotliCall None, ZstdCall 3]
        in (case zstd_compress cd 3 data of
             Inl e \<Rightarrow> (calls, Inl e)
           | Inr zout \<Rightarrow>
               let zstd_size = length zout;
                   min_size = min brotli_size zstd_size
               in (case int_mul_float original_size lit_0_95 of
                     Inl e \<Rightarrow> (calls, Inl e)
                   | Inr limit \<Rightarrow>
                       if int_gt_float min_size limit then (calls, Inr 2)
                       else (case int_mul_float zstd_size lit_0_98 of
                               Inl e \<Rightarrow> (calls, Inl e)
                             | Inr margin \<Rightarrow>
                                 if int_lt_float brotli_size margin then (calls, Inr 0)
                                 else (calls, Inr 1)))))"

text \<open>
  \<^verbatim>\<open>get_best_label\<close> of \<^verbatim>\<open>train_silesia.py\<close>: the same shape, with
  \<^verbatim>\<open>brotli.compress(data, quality=4)\<close>.
\<close>

definition get_best_label :: "codecs \<Rightarrow> bytes \<Rightarrow> codec_call list \<times> (pyerr + nat)" where
  "get_best_label cd data =
     (let original = length data in
      if original = 0 then ([], Inr 2)
      else
        let brotli_size =
              (case brotli_compress cd (Some 4) data of
                 Inr out \<Rightarrow> length out
               | Inl _ \<Rightarrow> original);
            calls = [BrotliCall (Some 4), ZstdCall 3]
        in (case zstd_compress cd 3 data of
             Inl e \<Rightarrow> (calls, Inl e)
           | Inr zout \<Rightarrow>
               let zstd_size = length zout
               in (case int_mul_float original lit_0_95 of
                     Inl e \<Rightarrow> (calls, Inl e)
                   | Inr limit \<Rightarrow>
                       if int_gt_float (min brotli_size zstd_size) limit then (calls, Inr 2)
                       else (case int_mul_float zstd_size lit_0_98 of
                               Inl e \<Rightarrow> (calls, Inl e)
                             | Inr margin \<Rightarrow>
                                 if int_lt_float brotli_size margin then (calls, Inr 0)
                                 else (calls, Inr 1)))))"


text \<open>
  Both main loops print the winner as \<^verbatim>\<open>["Brotli", "Zstd", "None"][label]\<close>: the
  source's own reading of the three integers.
\<close>

definition algo_name :: "nat \<Rightarrow> pyerr + string" where
  "algo_name best_algo =
     (if best_algo < length [''Brotli'', ''Zstd'', ''None'']
      then Inr ([''Brotli'', ''Zstd'', ''None''] ! best_algo)
      else Inl IndexError)"

subsection \<open>The label policy in the specification's words\<close>

text \<open>
  The specification names the decision \<open>decide(RaceResult) -> Label\<close> and gives it in five
  steps over \<open>originalSize\<close>, \<open>sizeA\<close> and \<open>sizeB\<close>; the labels are encoded as
  \<open>0 = AlgoA\<close>, \<open>1 = AlgoB\<close>, \<open>2 = None\<close>.  The products \<open>originalSize * 0.95\<close> and
  \<open>sizeB * 0.98\<close> are the double products that Python computes (\<open>times_float\<close>, without
  the range check of the conversion).
\<close>

datatype label = AlgoA | AlgoB | NoCompression

fun label_code :: "label \<Rightarrow> nat" where
  "label_code AlgoA = 0"
| "label_code AlgoB = 1"
| "label_code NoCompression = 2"

definition times_float :: "nat \<Rightarrow> pyfloat \<Rightarrow> pyfloat" where
  "times_float n y = float_mul (to_double n 0) y"

definition decide :: "nat \<Rightarrow> nat \<Rightarrow> nat \<Rightarrow> label" where
  "decide originalSize sizeA sizeB =
     (if originalSize = 0 then NoCompression
      else
        let minSize = min sizeA sizeB
        in if int_gt_float minSize (times_float originalSize lit_0_95) then NoCompression
           else if int_lt_float sizeA (times_float sizeB lit_0_98) then AlgoA
           else AlgoB)"

section \<open>Entropy of a byte chunk\<close>

text \<open>
  \<^verbatim>\<open>get_entropy\<close> (\<^verbatim>\<open>train_real_model.py\<close>) and \<^verbatim>\<open>calculate_entropy\<close>
  (\<^verbatim>\<open>train_silesia.py\<close>) have the same body: a loop over \<^verbatim>\<open>range(256)\<close> that adds
  \<^verbatim>\<open>- p_x * math.log(p_x, 2)\<close> for every byte value that occurs.  Python's floats are
  taken as real numbers here: the rounding of the division, of the logarithm and of the
  sum is not part of the model.
\<close>

definition get_entropy :: "bytes \<Rightarrow> real" where
  "get_entropy data =
     (if data = [] then 0
      else foldl (\<lambda>entropy x.
                    let p_x = real (count_list data (of_nat x)) / real (length data)
                    in if 0 < p_x then entropy + (- p_x * log 2 p_x) else entropy)
                 0 [0..<256])"

definition calculate_entropy :: "bytes \<Rightarrow> real" where
  "calculate_entropy data =
     (if data = [] then 0
      else foldl (\<lambda>entropy x.
                    let p_x = real (count_list data (of_nat x)) / real (length data)
                    in if 0 < p_x then entropy + (- p_x * log 2 p_x) else entropy)
                 0 [0..<256])"

text \<open>
  The specification's entropy: the 256-bin histogram of the chunk, the relative
  frequencies \<open>p_i\<close>, and \<open>- \<Sum> p_i * log2 p_i\<close> over the bins with \<open>p_i > 0\<close>.
\<close>

definition histogram :: "bytes \<Rightarrow> byte \<Rightarrow> nat" where
  "histogram c b = length (filter (\<lambda>x. x = b) c)"

definition probability :: "bytes \<Rightarrow> byte \<Rightarrow> real" where
  "probability c b = real (histogram c b) / real (length c)"

definition shannon_entropy :: "bytes \<Rightarrow> real" where
  "shannon_entropy c =
     - (\<Sum>b \<in> {b. 0 < probability c b}. probability c b * log 2 (probability c b))"

text \<open>
  The specification's average: the arithmetic mean of the entropies of the non-empty
  chunks, and 0 when every chunk is empty.
\<close>

definition mean_entropy_nonempty :: "bytes list \<Rightarrow> real" where
  "mean_entropy_nonempty cs =
     (let ne = filter (\<lambda>c. c \<noteq> []) cs
      in if ne = [] then 0 else (\<Sum>c\<leftarrow>ne. shannon_entropy c) / real (length ne))"

section \<open>Reading a file in windows\<close>

text \<open>
  An open binary file is its content and the current position.  \<^verbatim>\<open>f.read(n)\<close> returns
  at most \<open>n\<close> bytes from the position (none at or after the end) and advances;
  \<^verbatim>\<open>f.seek(k)\<close> sets the position and raises \<^verbatim>\<open>OSError\<close> for a negative \<open>k\<close>.
  \<^verbatim>\<open>os.path.getsize\<close> is the length of the content.
\<close>

record fileobj =
  content :: bytes
  pos :: nat

definition f_open :: "bytes \<Rightarrow> fileobj" where
  "f_open bs = \<lparr>content = bs, pos = 0\<rparr>"

definition f_read :: "nat \<Rightarrow> fileobj \<Rightarrow> bytes \<times> fileobj" where
  "f_read n f =
     (let chunk = take n (drop (pos f) (content f))
      in (chunk, f\<lparr>pos := pos f + length chunk\<rparr>))"

definition f_seek :: "int \<Rightarrow> fileobj \<Rightarrow> pyerr + fileobj" where
  "f_seek k f = (if k < 0 then Inl OSError else Inr (f\<lparr>pos := nat k\<rparr>))"

section \<open>Strings: split, lower, basename, endswith\<close>

text \<open>
  A file name is a string of characters with code points below 256.
  \<^verbatim>\<open>s.split('.')\<close> always returns at least one piece; \<^verbatim>\<open>xs[-1]\<close> raises
  \<^verbatim>\<open>IndexError\<close> on an empty list; \<^verbatim>\<open>s.lower()\<close> maps \<open>A\<close> to \<open>Z\<close> and the
  upper-case letters of Latin-1 (code points 192 to 222 without 215) to the code point
  32 above and leaves every other character; \<^verbatim>\<open>os.path.basename\<close> is what follows
  the last \<open>/\<close>.
\<close>

fun py_split :: "char \<Rightarrow> string \<Rightarrow> string list" where
  "py_split sep [] = [[]]"
| "py_split sep (c # cs) =
     (if c = sep then [] # py_split sep cs
      else (case py_split sep cs of
              w # ws \<Rightarrow> (c # w) # ws
            | [] \<Rightarrow> [[c]]))"

definition py_last :: "'a list \<Rightarrow> pyerr + 'a" where
  "py_last xs = (if xs = [] then Inl IndexError else Inr (last xs))"

definition lower_char :: "char \<Rightarrow> char" where
  "lower_char c =
     (let n = (of_char c :: nat)
      in if (65 \<le> n \<and> n \<le> 90) \<or> (192 \<le> n \<and> n \<le> 222 \<and> n \<noteq> 215)
         then char_of (n + 32) else c)"

definition py_lower :: "string \<Rightarrow> string" where
  "py_lower s = map lower_char s"

definition basename :: "string \<Rightarrow> string" where
  "basename p = rev (takeWhile (\<lambda>c. c \<noteq> CHR ''/'') (rev p))"

definition py_endswith :: "string \<Rightarrow> string \<Rightarrow> bool" where
  "py_endswith s suf = (length suf \<le> length s \<and> drop (length s - length suf) s = suf)"

section \<open>Features in \<^verbatim>\<open>train_real_model.py\<close>\<close>

text \<open>
  The body of the main loop for one file, lines 60 to 80: the three chunks, the average
  of their entropies, the hint from the extension, and the row that is appended to
  \<^verbatim>\<open>features\<close>.  The integer \<^verbatim>\<open>hint\<close> stands in the row as the real number of the
  same value.
\<close>

definition chunks :: "bytes \<Rightarrow> pyerr + bytes list" where
  "chunks bs =
     (let file_size = length bs;
          f = f_open bs;
          (c1, f) = f_read 16384 f
      in case f_seek (max 0 (int file_size div 2)) f of
           Inl e \<Rightarrow> Inl e
         | Inr f \<Rightarrow>
             (let (c2, f) = f_read 16384 f
              in case f_seek (max 0 (int file_size - 16384)) f of
                   Inl e \<Rightarrow> Inl e
                 | Inr f \<Rightarrow>
                     (let (c3, f) = f_read 16384 f
                      in Inr [c1, c2, c3])))"

definition avg_entropy :: "bytes list \<Rightarrow> pyerr + real" where
  "avg_entropy cs =
     (let entropies = map get_entropy cs
      in if length entropies = 0 then Inl ZeroDivisionError
         else Inr (sum_list entropies / real (length entropies)))"

definition hint :: "string \<Rightarrow> pyerr + nat" where
  "hint filename =
     (case py_last (py_split (CHR ''.'') filename) of
        Inl e \<Rightarrow> Inl e
      | Inr piece \<Rightarrow>
          (let ext = py_lower piece;
               hint = 0;
               hint = (if ext \<in> set [''txt'', ''csv'', ''js'', ''md''] then 1 else hint);
               hint = (if ext \<in> set [''jpg'', ''mp4'', ''zip''] then 2 else hint)
           in Inr hint))"

definition features :: "string \<Rightarrow> bytes \<Rightarrow> pyerr + real list" where
  "features filename bs =
     (let file_size = length bs
      in case chunks bs of
           Inl e \<Rightarrow> Inl e
         | Inr cs \<Rightarrow>
             (case avg_entropy cs of
                Inl e \<Rightarrow> Inl e
              | Inr avg \<Rightarrow>
                  (case hint filename of
                     Inl e \<Rightarrow> Inl e
                   | Inr h \<Rightarrow> Inr [avg, log 10 (real (file_size + 1)), real h])))"

section \<open>Features in \<^verbatim>\<open>train_silesia.py\<close>\<close>

text \<open>
  \<^verbatim>\<open>extract_features\<close>, in its three parts: the reads of head, middle and tail, the
  average over the chunks that are not empty, and the hint from the base name.
\<close>

definition CHUNK_SIZE :: nat where
  "CHUNK_SIZE = 16384"

definition extract_features_chunks :: "bytes \<Rightarrow> pyerr + bytes list" where
  "extract_features_chunks bs =
     (let file_size = length bs;
          f = f_open bs;
          (head, f) = f_read CHUNK_SIZE f
      in case f_seek (max 0 (int file_size div 2)) f of
           Inl e \<Rightarrow> Inl e
         | Inr f \<Rightarrow>
             (let (mid, f) = f_read CHUNK_SIZE f
              in case f_seek (max 0 (int file_size - int CHUNK_SIZE)) f of
                   Inl e \<Rightarrow> Inl e
                 | Inr f \<Rightarrow>
                     (let (tail, f) = f_read CHUNK_SIZE f
                      in Inr [head, mid, tail])))"

definition extract_features_avg_entropy :: "bytes list \<Rightarrow> real" where
  "extract_features_avg_entropy cs =
     (let entropies = map calculate_entropy (filter (\<lambda>c. c \<noteq> []) cs)
      in if entropies \<noteq> [] then sum_list entropies / real (length entropies) else 0)"

definition extract_features_hint :: "string \<Rightarrow> nat" where
  "extract_features_hint file_path =
     (let name = py_lower (basename file_path);
          hint = 0;
          hint = (if name \<in> set [''dickens'', ''samba'', ''webster'', ''xml''] then 1 else hint);
          hint = (if py_endswith name ''.zst'' \<or> name \<in> set [''mr''] then 2 else hint)
      in hint)"

definition extract_features :: "string \<Rightarrow> bytes \<Rightarrow> pyerr + real list" where
  "extract_features file_path bs =
     (let file_size = length bs
      in case extract_features_chunks bs of
           Inl e \<Rightarrow> Inl e
         | Inr cs \<Rightarrow>
             (let avg_entropy = extract_features_avg_entropy cs;
                  size_log = log 10 (real (file_size + 1));
                  hint = extract_features_hint file_path
              in Inr [avg_entropy, size_log, real hint]))"

section \<open>The literal rows of \<^verbatim>\<open>train_model.py\<close>\<close>

definition X_synthetic :: "real list list" where
  "X_synthetic =
     [[2.5, 0.5, 0], [3.1, 2.0, 0],
      [5.5, 10.0, 1], [6.2, 5.0, 1],
      [7.9, 50.0, 1], [7.95, 100.0, 1]]"

definition y_synthetic :: "nat list" where
  "y_synthetic = [0, 0, 1, 1, 2, 2]"


section \<open>Codec stand-ins for evaluation\<close>

text \<open>
  Two codec pairs on which the label functions are evaluated.  In the first, Brotli
  returns \<open>a_default\<close> bytes when called without a quality and \<open>a_quality\<close> bytes when
  called with one, and Zstd returns \<open>b\<close> bytes.  In the second, Brotli returns its input
  and every Zstd call raises.
\<close>

definition fixed_size_codecs :: "nat \<Rightarrow> nat \<Rightarrow> nat \<Rightarrow> codecs" where
  "fixed_size_codecs a_default a_quality b =
     \<lparr>brotli_compress = (\<lambda>q d. Inr (replicate (if q = None then a_default else a_quality) 0)),
      zstd_compress = (\<lambda>l d. Inr (replicate b 0))\<rparr>"

definition failing_zstd_codecs :: codecs where
  "failing_zstd_codecs =
     \<lparr>brotli_compress = (\<lambda>q d. Inr d), zstd_compress = (\<lambda>l d. Inl ZstdError)\<rparr>"

section \<open>Properties of the double arithmetic\<close>

text \<open>
  The two literals are the doubles nearest to 95/100 and 98/100: the mantissa has 53
  bits and the value is less than half a unit in the last place away.
\<close>

lemma literals_nearest:
  "2 ^ 52 \<le> mant lit_0_95" "mant lit_0_95 < 2 ^ 53"
  "\<bar>fval lit_0_95 - 95 / 100\<bar> < 1 / 2 ^ 54"
  "2 ^ 52 \<le> mant lit_0_98" "mant lit_0_98 < 2 ^ 53"
  "\<bar>fval lit_0_98 - 98 / 100\<bar> < 1 / 2 ^ 54"
  by (simp_all add: lit_0_95_def lit_0_98_def fval_def power_int_minus)

lemma bit_length_0 [simp]: "bit_length 0 = 0"
  by (simp add: bit_length.simps)

lemma bit_length_upper: "n < 2 ^ bit_length n"
proof (induction n rule: bit_length.induct)
  case (1 n)
  show ?case
  proof (cases "n = 0")
    case True
    then show ?thesis by simp
  next
    case False
    with 1 have "n div 2 < 2 ^ bit_length (n div 2)" by simp
    moreover have "bit_length n = Suc (bit_length (n div 2))"
      using False by (subst bit_length.simps) simp
    ultimately show ?thesis by simp
  qed
qed

lemma bit_length_le: "n < 2 ^ w \<Longrightarrow> bit_length n \<le> w"
proof (induction n arbitrary: w rule: bit_length.induct)
  case (1 n)
  show ?case
  proof (cases "n = 0")
    case True
    then show ?thesis by simp
  next
    case False
    with 1(2) obtain v where w: "w = Suc v"
      by (cases w) auto
    with 1(2) have "n div 2 < 2 ^ v" by simp
    with 1(1) False have "bit_length (n div 2) \<le> v" by simp
    moreover have "bit_length n = Suc (bit_length (n div 2))"
      using False by (subst bit_length.simps) simp
    ultimately show ?thesis using w by simp
  qed
qed

lemma round_half_even_0 [simp]: "round_half_even k 0 = k"
  by (simp add: round_half_even_def)

lemma round_half_even_cases:
  obtains q r where "k = q * 2 ^ e + r" "r < 2 ^ e"
    "round_half_even k e = (if 2 ^ e < 2 * r \<or> (2 * r = 2 ^ e \<and> odd q) then q + 1 else q)"
proof -
  have "k = k div 2 ^ e * 2 ^ e + k mod 2 ^ e"
    using div_mult_mod_eq [of k "2 ^ e"] by simp
  moreover have "k mod 2 ^ e < 2 ^ e" by simp
  ultimately show ?thesis
    using that [of "k div 2 ^ e" "k mod 2 ^ e"]
    by (simp add: round_half_even_def Let_def)
qed

lemma round_half_even_upper: "2 * (round_half_even k e * 2 ^ e) \<le> 2 * k + 2 ^ e"
proof -
  obtain q r where "k = q * 2 ^ e + r" "r < 2 ^ e"
    "round_half_even k e = (if 2 ^ e < 2 * r \<or> (2 * r = 2 ^ e \<and> odd q) then q + 1 else q)"
    by (rule round_half_even_cases)
  then show ?thesis
    by (auto simp: algebra_simps)
qed

lemma round_half_even_lower: "2 * k \<le> 2 * (round_half_even k e * 2 ^ e) + 2 ^ e"
proof -
  obtain q r where "k = q * 2 ^ e + r" "r < 2 ^ e"
    "round_half_even k e = (if 2 ^ e < 2 * r \<or> (2 * r = 2 ^ e \<and> odd q) then q + 1 else q)"
    by (rule round_half_even_cases)
  then show ?thesis
    by (auto simp: algebra_simps)
qed

text \<open>A multiple of the spacing that is nearer than half the spacing is the result.\<close>

lemma round_half_even_grid:
  assumes "k \<le> j * 2 ^ e" and "2 * (j * 2 ^ e - k) < 2 ^ e"
  shows "round_half_even k e = j"
proof -
  define E :: nat where "E = 2 ^ e"
  obtain q r where "k = q * 2 ^ e + r" and "r < 2 ^ e"
    and "round_half_even k e = (if 2 ^ e < 2 * r \<or> (2 * r = 2 ^ e \<and> odd q) then q + 1 else q)"
    by (rule round_half_even_cases)
  then have k: "k = q * E + r" and r: "r < E"
    and rhe: "round_half_even k e = (if E < 2 * r \<or> (2 * r = E \<and> odd q) then q + 1 else q)"
    by (simp_all add: E_def)
  from assms have le: "k \<le> j * E" and near: "2 * (j * E - k) < E"
    by (simp_all add: E_def)
  have E: "0 < E" by (simp add: E_def)
  show ?thesis
  proof (cases "r = 0")
    case True
    have "q * E \<le> j * E" using k le by linarith
    moreover have "j * E < q * E + E" using k near True le by linarith
    then have "j * E < (q + 1) * E" by (simp add: algebra_simps)
    ultimately have "q \<le> j" "j < q + 1"
      using E by (simp_all only: mult_le_cancel2 mult_less_cancel2)
    with rhe True E show ?thesis by simp
  next
    case False
    have "q * E < j * E" using k le False by linarith
    moreover have "j * E < q * E + 2 * E" using k near r le by linarith
    then have "j * E < (q + 2) * E" by (simp add: algebra_simps)
    ultimately have "q < j" "j < q + 2"
      using E by (simp_all only: mult_less_cancel2)
    then have j: "j = q + 1" by simp
    then have "j * E = q * E + E" by (simp add: algebra_simps)
    with k near le have "E < 2 * r" by linarith
    with rhe j show ?thesis by simp
  qed
qed


subsection \<open>Comparisons against a rounded product\<close>

lemma int_gt_float_scaled:
  assumes "e \<le> 53"
  shows "int_gt_float a \<lparr>mant = q, expo = - 53 + int e\<rparr> = (q * 2 ^ e < a * 2 ^ 53)"
proof (cases "e = 53")
  case True
  then show ?thesis by (simp add: int_gt_float_def)
next
  case False
  with assms have lt: "e < 53" by simp
  then have n: "nat (53 - int e) = 53 - e" by simp
  have p: "(2::nat) ^ 53 = 2 ^ (53 - e) * 2 ^ e"
    using lt by (simp flip: power_add)
  have "(q < a * 2 ^ (53 - e)) = (q * 2 ^ e < (a * 2 ^ (53 - e)) * 2 ^ e)"
    by (simp only: mult_less_cancel2) simp
  also have "\<dots> = (q * 2 ^ e < a * 2 ^ 53)"
    by (simp only: p mult.assoc)
  finally show ?thesis using lt n by (simp add: int_gt_float_def)
qed

lemma int_lt_float_scaled:
  assumes "e \<le> 53"
  shows "int_lt_float a \<lparr>mant = q, expo = - 53 + int e\<rparr> = (a * 2 ^ 53 < q * 2 ^ e)"
proof (cases "e = 53")
  case True
  then show ?thesis by (simp add: int_lt_float_def)
next
  case False
  with assms have lt: "e < 53" by simp
  then have n: "nat (53 - int e) = 53 - e" by simp
  have p: "(2::nat) ^ 53 = 2 ^ (53 - e) * 2 ^ e"
    using lt by (simp flip: power_add)
  have "(a * 2 ^ (53 - e) < q) = ((a * 2 ^ (53 - e)) * 2 ^ e < q * 2 ^ e)"
    by (simp only: mult_less_cancel2) simp
  also have "\<dots> = (a * 2 ^ 53 < q * 2 ^ e)"
    by (simp only: p mult.assoc)
  finally show ?thesis using lt n by (simp add: int_lt_float_def)
qed

lemma to_double_shape:
  "\<exists>e. to_double k x = \<lparr>mant = round_half_even k e, expo = x + int e\<rparr> \<and>
       k < 2 ^ e * 2 ^ 53 \<and> (\<forall>w. k < 2 ^ (w + 53) \<longrightarrow> e \<le> w)"
proof -
  define e where "e = (if bit_length k \<le> 53 then 0 else bit_length k - 53)"
  have 1: "to_double k x = \<lparr>mant = round_half_even k e, expo = x + int e\<rparr>"
    by (simp add: to_double_def e_def)
  have "bit_length k \<le> e + 53" by (simp add: e_def)
  then have "(2::nat) ^ bit_length k \<le> 2 ^ (e + 53)"
    by (rule power_increasing) simp
  with bit_length_upper [of k] have 2: "k < 2 ^ e * 2 ^ 53"
    by (simp add: power_add)
  have 3: "e \<le> w" if "k < 2 ^ (w + 53)" for w
    using bit_length_le [OF that] by (auto simp: e_def)
  from 1 2 3 show ?thesis by blast
qed

lemma gt_limit_exact:
  assumes n: "n < 2 ^ 47"
  shows "int_gt_float a (to_double (n * 8556839292003942) (- 53)) = (19 * n < 20 * a)"
proof -
  define k where "k = n * 8556839292003942"
  have k20: "20 * k + 8 * n = 19 * n * 9007199254740992"
    by (simp add: k_def)
  obtain e where td: "to_double k (- 53) = \<lparr>mant = round_half_even k e, expo = - 53 + int e\<rparr>"
    and kE: "k < 2 ^ e * 2 ^ 53" and eb: "\<forall>w. k < 2 ^ (w + 53) \<longrightarrow> e \<le> w"
    using to_double_shape [of k "- 53"] by blast
  define E :: nat where "E = 2 ^ e"
  define R where "R = round_half_even k e * 2 ^ e"
  have "k < 2 ^ (47 + 53)"
    using n by (simp add: k_def)
  with eb have e47: "e \<le> 47" by blast
  then have "(2::nat) ^ e \<le> 2 ^ 47" by (rule power_increasing) simp
  then have E47: "E \<le> 140737488355328" by (simp add: E_def)
  have E0: "0 < E" by (simp add: E_def)
  have kE': "k < E * 9007199254740992" using kE by (simp add: E_def)
  have up: "2 * R \<le> 2 * k + E" and lo: "2 * k \<le> 2 * R + E"
    using round_half_even_upper [of k e] round_half_even_lower [of k e]
    by (simp_all add: R_def E_def)
  have cmp: "int_gt_float a (to_double k (- 53)) = (R < a * 9007199254740992)"
    using int_gt_float_scaled [of e a "round_half_even k e"] e47
    by (simp add: td R_def)
  consider "19 * n < 20 * a" | "20 * a < 19 * n" | "20 * a = 19 * n"
    by linarith
  then have "(R < a * 9007199254740992) = (19 * n < 20 * a)"
  proof cases
    case 1
    with k20 up E47 n show ?thesis by simp
  next
    case 2
    with k20 lo E47 n show ?thesis by simp
  next
    case 3
    define j where "j = a * 2 ^ (53 - e)"
    have j: "j * 2 ^ e = a * 9007199254740992"
    proof -
      have "(2::nat) ^ (53 - e) * 2 ^ e = 2 ^ 53"
        using e47 by (simp flip: power_add)
      then have "j * 2 ^ e = a * 2 ^ 53"
        by (simp add: j_def mult.assoc)
      then show ?thesis by simp
    qed
    have "k \<le> j * 2 ^ e" using j k20 3 by linarith
    moreover have "2 * (j * 2 ^ e - k) < 2 ^ e"
      using j k20 3 kE' E0 by (simp add: E_def [symmetric])
    ultimately have "round_half_even k e = j"
      by (rule round_half_even_grid)
    then have "R = a * 9007199254740992"
      using j by (simp add: R_def)
    with 3 show ?thesis by simp
  qed
  with cmp show ?thesis by (simp add: k_def)
qed


lemma lt_margin_exact:
  assumes n: "n < 2 ^ 47"
  shows "int_lt_float a (to_double (n * 8827055269646172) (- 53)) = (50 * a < 49 * n)"
proof -
  define k where "k = n * 8827055269646172"
  have k50: "50 * k + 8 * n = 49 * n * 9007199254740992"
    by (simp add: k_def)
  obtain e where td: "to_double k (- 53) = \<lparr>mant = round_half_even k e, expo = - 53 + int e\<rparr>"
    and kE: "k < 2 ^ e * 2 ^ 53" and eb: "\<forall>w. k < 2 ^ (w + 53) \<longrightarrow> e \<le> w"
    using to_double_shape [of k "- 53"] by blast
  define E :: nat where "E = 2 ^ e"
  define R where "R = round_half_even k e * 2 ^ e"
  have "k < 2 ^ (47 + 53)"
    using n by (simp add: k_def)
  with eb have e47: "e \<le> 47" by blast
  then have "(2::nat) ^ e \<le> 2 ^ 47" by (rule power_increasing) simp
  then have E47: "E \<le> 140737488355328" by (simp add: E_def)
  have E0: "0 < E" by (simp add: E_def)
  have kE': "k < E * 9007199254740992" using kE by (simp add: E_def)
  have up: "2 * R \<le> 2 * k + E" and lo: "2 * k \<le> 2 * R + E"
    using round_half_even_upper [of k e] round_half_even_lower [of k e]
    by (simp_all add: R_def E_def)
  have cmp: "int_lt_float a (to_double k (- 53)) = (a * 9007199254740992 < R)"
    using int_lt_float_scaled [of e a "round_half_even k e"] e47
    by (simp add: td R_def)
  consider "50 * a < 49 * n" | "49 * n < 50 * a" | "50 * a = 49 * n"
    by linarith
  then have "(a * 9007199254740992 < R) = (50 * a < 49 * n)"
  proof cases
    case 1
    with k50 lo E47 n show ?thesis by simp
  next
    case 2
    with k50 up E47 n show ?thesis by simp
  next
    case 3
    define j where "j = a * 2 ^ (53 - e)"
    have j: "j * 2 ^ e = a * 9007199254740992"
    proof -
      have "(2::nat) ^ (53 - e) * 2 ^ e = 2 ^ 53"
        using e47 by (simp flip: power_add)
      then have "j * 2 ^ e = a * 2 ^ 53"
        by (simp add: j_def mult.assoc)
      then show ?thesis by simp
    qed
    have "k \<le> j * 2 ^ e" using j k50 3 by linarith
    moreover have "2 * (j * 2 ^ e - k) < 2 ^ e"
      using j k50 3 kE' E0 by (simp add: E_def [symmetric])
    ultimately have "round_half_even k e = j"
      by (rule round_half_even_grid)
    then have "R = a * 9007199254740992"
      using j by (simp add: R_def)
    with 3 show ?thesis by simp
  qed
  with cmp show ?thesis by (simp add: k_def)
qed

subsection \<open>The conversion of a 64-bit size does not overflow\<close>

lemma int_to_float_u64: "n < 2 ^ 64 \<Longrightarrow> int_to_float n = Inr (to_double n 0)"
proof -
  assume n: "n < 2 ^ 64"
  obtain e where td: "to_double n 0 = \<lparr>mant = round_half_even n e, expo = 0 + int e\<rparr>"
    and eb: "\<forall>w. n < 2 ^ (w + 53) \<longrightarrow> e \<le> w"
    using to_double_shape [of n 0] by blast
  from n have "n < 2 ^ (11 + 53)" by simp
  with eb have "e \<le> 11" by blast
  then have "(2::nat) ^ e \<le> 2 ^ 11" by (rule power_increasing) simp
  with round_half_even_upper [of n e] n
  have "round_half_even n e * 2 ^ e < 2 ^ 65" by simp
  also have "\<dots> < (2::nat) ^ 1024" by simp
  finally show ?thesis
    by (simp add: int_to_float_def td Let_def not_le)
qed

lemma fval_gt: "int_gt_float a f = (fval f < real a)"
proof (cases "0 \<le> expo f")
  case True
  then have "fval f = real (mant f * 2 ^ nat (expo f))"
    by (simp add: fval_def power_int_def)
  with True show ?thesis
    by (simp only: int_gt_float_def of_nat_less_iff if_True)
next
  case False
  define d where "d = nat (- expo f)"
  from False have fv: "fval f = real (mant f) / 2 ^ d"
    by (simp add: fval_def power_int_def field_simps d_def)
  have "(fval f < real a) = (real (mant f) < real a * 2 ^ d)"
    unfolding fv by (simp add: pos_divide_less_eq)
  also have "real a * 2 ^ d = real (a * 2 ^ d)" by simp
  also have "(real (mant f) < real (a * 2 ^ d)) = (mant f < a * 2 ^ d)"
    by (rule of_nat_less_iff)
  finally show ?thesis using False
    by (simp add: int_gt_float_def d_def)
qed

lemma fval_lt: "int_lt_float a f = (real a < fval f)"
proof (cases "0 \<le> expo f")
  case True
  then have "fval f = real (mant f * 2 ^ nat (expo f))"
    by (simp add: fval_def power_int_def)
  with True show ?thesis
    by (simp only: int_lt_float_def of_nat_less_iff if_True)
next
  case False
  define d where "d = nat (- expo f)"
  from False have fv: "fval f = real (mant f) / 2 ^ d"
    by (simp add: fval_def power_int_def field_simps d_def)
  have "(real a < fval f) = (real a * 2 ^ d < real (mant f))"
    unfolding fv by (simp add: pos_less_divide_eq)
  also have "real a * 2 ^ d = real (a * 2 ^ d)" by simp
  also have "(real (a * 2 ^ d) < real (mant f)) = (a * 2 ^ d < mant f)"
    by (rule of_nat_less_iff)
  finally show ?thesis using False
    by (simp add: int_lt_float_def d_def)
qed

section \<open>The label decision\<close>

lemma int_mul_float_u64: "n < 2 ^ 64 \<Longrightarrow> int_mul_float n y = Inr (times_float n y)"
  by (simp add: int_mul_float_def times_float_def int_to_float_u64)

lemma to_double_small: "n < 2 ^ 53 \<Longrightarrow> to_double n 0 = \<lparr>mant = n, expo = 0\<rparr>"
  using bit_length_le [of n 53] by (simp add: to_double_def)

lemma times_float_0_95: "n < 2 ^ 47 \<Longrightarrow> int_gt_float a (times_float n lit_0_95) = (19 * n < 20 * a)"
proof -
  assume n: "n < 2 ^ 47"
  then have "n < 2 ^ 53" by simp
  then have "times_float n lit_0_95 = to_double (n * 8556839292003942) (- 53)"
    by (simp add: times_float_def float_mul_def to_double_small lit_0_95_def)
  with n show ?thesis by (simp only: gt_limit_exact)
qed

lemma times_float_0_98: "n < 2 ^ 47 \<Longrightarrow> int_lt_float a (times_float n lit_0_98) = (50 * a < 49 * n)"
proof -
  assume n: "n < 2 ^ 47"
  then have "n < 2 ^ 53" by simp
  then have "times_float n lit_0_98 = to_double (n * 8827055269646172) (- 53)"
    by (simp add: times_float_def float_mul_def to_double_small lit_0_98_def)
  with n show ?thesis by (simp only: lt_margin_exact)
qed

lemma decide_exact:
  assumes "0 < n" "n < 2 ^ 47" "b < 2 ^ 47"
  shows "decide n a b =
    (if 19 * n < 20 * min a b then NoCompression
     else if 50 * a < 49 * b then AlgoA else AlgoB)"
  using assms by (simp add: decide_def Let_def times_float_0_95 times_float_0_98)

lemma get_best_algo_decide:
  assumes "0 < length data" "length data < 2 ^ 64"
    and "zstd_compress cd 3 data = Inr zout" "length zout < 2 ^ 64"
  shows "snd (get_best_algo cd data) =
     Inr (label_code (decide (length data)
            (case brotli_compress cd None data of Inr out \<Rightarrow> length out | Inl _ \<Rightarrow> length data)
            (length zout)))"
  using assms
  by (simp add: get_best_algo_def Let_def int_mul_float_u64 decide_def)

lemma get_best_label_decide:
  assumes "0 < length data" "length data < 2 ^ 64"
    and "zstd_compress cd 3 data = Inr zout" "length zout < 2 ^ 64"
  shows "snd (get_best_label cd data) =
     Inr (label_code (decide (length data)
            (case brotli_compress cd (Some 4) data of Inr out \<Rightarrow> length out | Inl _ \<Rightarrow> length data)
            (length zout)))"
  using assms
  by (simp add: get_best_label_def Let_def int_mul_float_u64 decide_def)

lemma decide_values:
  assumes "0 < n"
  shows "(decide n a b = NoCompression) = (fval (times_float n lit_0_95) < real (min a b))"
    and "(decide n a b = AlgoA) =
          (\<not> fval (times_float n lit_0_95) < real (min a b) \<and> real a < fval (times_float b lit_0_98))"
    and "(decide n a b = AlgoB) =
          (\<not> fval (times_float n lit_0_95) < real (min a b) \<and> \<not> real a < fval (times_float b lit_0_98))"
  using assms by (simp_all add: decide_def Let_def fval_gt fval_lt)

text \<open>
  Claim C1.  The label is the pure function \<open>decide\<close> of the original size and the two
  compressed sizes: for files and Zstd outputs shorter than \<open>2 ^ 64\<close> bytes both
  \<^verbatim>\<open>get_best_algo\<close> and \<^verbatim>\<open>get_best_label\<close> return the code of
  \<open>decide (original size) (size A) (size B)\<close>, where size A is the original size when
  Brotli raised.  For a positive original size \<open>decide\<close> is \<open>None\<close> exactly when
  the minimum of the two sizes exceeds the product of the original size and 0.95,
  otherwise \<open>AlgoA\<close> exactly when size A is below the product of size B and 0.98, and
  \<open>AlgoB\<close> in the remaining cases.  The products are Python's double products; below
  \<open>2 ^ 47\<close> bytes the two comparisons agree with the exact ones, \<open>19 * n < 20 * min a b\<close>
  and \<open>50 * a < 49 * b\<close>.  The three boundary rows of the specification evaluate to
  \<open>AlgoB\<close>, \<open>AlgoA\<close> and \<open>None\<close>.
\<close>

theorem label_decision:
  "(0 < length data \<and> length data < 2 ^ 64 \<and>
    zstd_compress cd 3 data = Inr zout \<and> length zout < 2 ^ 64 \<longrightarrow>
      snd (get_best_algo cd data) =
        Inr (label_code (decide (length data)
               (case brotli_compress cd None data of
                  Inr out \<Rightarrow> length out | Inl _ \<Rightarrow> length data)
               (length zout))) \<and>
      snd (get_best_label cd data) =
        Inr (label_code (decide (length data)
               (case brotli_compress cd (Some 4) data of
                  Inr out \<Rightarrow> length out | Inl _ \<Rightarrow> length data)
               (length zout)))) \<and>
   (0 < n \<longrightarrow>
      (decide n a b = NoCompression) =
        (fval (times_float n lit_0_95) < real (min a b)) \<and>
      (decide n a b = AlgoA) =
        (\<not> fval (times_float n lit_0_95) < real (min a b) \<and>
         real a < fval (times_float b lit_0_98)) \<and>
      (decide n a b = AlgoB) =
        (\<not> fval (times_float n lit_0_95) < real (min a b) \<and>
         \<not> real a < fval (times_float b lit_0_98))) \<and>
   (0 < n \<and> n < 2 ^ 47 \<and> b < 2 ^ 47 \<longrightarrow>
      decide n a b =
        (if 19 * n < 20 * min a b then NoCompression
         else if 50 * a < 49 * b then AlgoA else AlgoB)) \<and>
   decide 1000 960 900 = AlgoB \<and>
   decide 1000 850 900 = AlgoA \<and>
   decide 1000 960 970 = NoCompression"
proof (intro conjI impI)
  assume h: "0 < length data \<and> length data < 2 ^ 64 \<and>
    zstd_compress cd 3 data = Inr zout \<and> length zout < 2 ^ 64"
  then show "snd (get_best_algo cd data) =
        Inr (label_code (decide (length data)
               (case brotli_compress cd None data of
                  Inr out \<Rightarrow> length out | Inl _ \<Rightarrow> length data)
               (length zout)))"
    by (simp add: get_best_algo_decide)
  from h show "snd (get_best_label cd data) =
        Inr (label_code (decide (length data)
               (case brotli_compress cd (Some 4) data of
                  Inr out \<Rightarrow> length out | Inl _ \<Rightarrow> length data)
               (length zout)))"
    by (simp add: get_best_label_decide)
next
  assume "0 < n"
  then show "(decide n a b = NoCompression) =
        (fval (times_float n lit_0_95) < real (min a b))"
    by (rule decide_values)
next
  assume "0 < n"
  then show "(decide n a b = AlgoA) =
        (\<not> fval (times_float n lit_0_95) < real (min a b) \<and>
         real a < fval (times_float b lit_0_98))"
    by (rule decide_values)
next
  assume "0 < n"
  then show "(decide n a b = AlgoB) =
        (\<not> fval (times_float n lit_0_95) < real (min a b) \<and>
         \<not> real a < fval (times_float b lit_0_98))"
    by (rule decide_values)
next
  assume "0 < n \<and> n < 2 ^ 47 \<and> b < 2 ^ 47"
  then show "decide n a b =
        (if 19 * n < 20 * min a b then NoCompression
         else if 50 * a < 49 * b then AlgoA else AlgoB)"
    by (simp add: decide_exact)
qed (simp_all add: decide_exact)

theorem label_decision_witness:
  "0 < length (replicate 1000 (65 :: byte)) \<and>
   length (replicate 1000 (65 :: byte)) < 2 ^ 64 \<and>
   zstd_compress
     \<lparr>brotli_compress = \<lambda>q d. Inr (replicate 850 0), zstd_compress = \<lambda>l d. Inr (replicate 900 0)\<rparr>
     3 (replicate 1000 65) = Inr (replicate 900 0) \<and>
   length (replicate 900 (0 :: byte)) < 2 ^ 64 \<and>
   snd (get_best_algo
     \<lparr>brotli_compress = \<lambda>q d. Inr (replicate 850 0), zstd_compress = \<lambda>l d. Inr (replicate 900 0)\<rparr>
     (replicate 1000 65)) = Inr 0 \<and>
   snd (get_best_label
     \<lparr>brotli_compress = \<lambda>q d. Inr (replicate 850 0), zstd_compress = \<lambda>l d. Inr (replicate 900 0)\<rparr>
     (replicate 1000 65)) = Inr 0 \<and>
   (0 :: nat) < 1000 \<and> (1000 :: nat) < 2 ^ 47 \<and> (900 :: nat) < 2 ^ 47 \<and>
   decide 1000 850 900 = AlgoA"
  using label_decision [of "replicate 1000 65"
     "\<lparr>brotli_compress = \<lambda>q d. Inr (replicate 850 0), zstd_compress = \<lambda>l d. Inr (replicate 900 0)\<rparr>"
     "replicate 900 0" 1000 850 900]
  by simp


section \<open>Empty files, codec failures, and the two Brotli settings\<close>

lemma py_split_nonempty: "py_split sep s \<noteq> []"
  by (induction s) (auto split: list.splits)

lemma hint_total:
  "hint filename =
     Inr (let ext = py_lower (last (py_split (CHR ''.'') filename))
          in if ext \<in> set [''jpg'', ''mp4'', ''zip''] then 2
             else if ext \<in> set [''txt'', ''csv'', ''js'', ''md''] then 1 else 0)"
  by (simp add: hint_def py_last_def py_split_nonempty Let_def)

lemma hint_range: "\<exists>h. h \<le> 2 \<and> hint filename = Inr h"
  by (simp add: hint_total Let_def)

lemma chunks_empty: "chunks [] = Inr [[], [], []]"
  by (simp add: chunks_def f_open_def f_read_def f_seek_def Let_def)

lemma extract_features_chunks_empty: "extract_features_chunks [] = Inr [[], [], []]"
  by (simp add: extract_features_chunks_def f_open_def f_read_def f_seek_def Let_def CHUNK_SIZE_def)

text \<open>
  Claim C3.  For a file of length zero, whatever its name and whatever the codecs would
  do, both label functions return 2 (None) with no codec call made, and both feature
  builders return \<open>[0, 0, hint]\<close>, where the hint is the one that the name alone gives.
\<close>

theorem zero_length_file:
  "get_best_algo cd [] = ([], Inr 2) \<and>
   get_best_label cd [] = ([], Inr 2) \<and>
   (\<exists>h. h \<le> 2 \<and> hint filename = Inr h \<and> features filename [] = Inr [0, 0, real h]) \<and>
   extract_features file_path [] = Inr [0, 0, real (extract_features_hint file_path)]"
proof -
  obtain h where h: "h \<le> 2" "hint filename = Inr h"
    using hint_range by blast
  then have "features filename [] = Inr [0, 0, real h]"
    by (simp add: features_def chunks_empty avg_entropy_def get_entropy_def)
  with h have "\<exists>h. h \<le> 2 \<and> hint filename = Inr h \<and> features filename [] = Inr [0, 0, real h]"
    by blast
  moreover have "extract_features file_path [] = Inr [0, 0, real (extract_features_hint file_path)]"
    by (simp add: extract_features_def extract_features_chunks_empty
        extract_features_avg_entropy_def Let_def)
  ultimately show ?thesis
    by (simp add: get_best_algo_def get_best_label_def)
qed

text \<open>
  Claim C2 asks that a failure of either codec is replaced by the original size.  The
  Brotli call is guarded; the Zstd call is not: on the one-byte file \<open>[97]\<close>, with a
  Zstd call that raises, both label functions leave with the exception instead of a
  label.
\<close>

theorem zstd_failure_propagates:
  "get_best_algo failing_zstd_codecs [97] = ([BrotliCall None, ZstdCall 3], Inl ZstdError) \<and>
   get_best_label failing_zstd_codecs [97] = ([BrotliCall (Some 4), ZstdCall 3], Inl ZstdError)"
  by (simp add: get_best_algo_def get_best_label_def failing_zstd_codecs_def)

text \<open>The guarded half: a Brotli failure counts as the original size.\<close>

lemma brotli_failure_isolated:
  assumes "0 < length data" "length data < 2 ^ 64"
    and "zstd_compress cd 3 data = Inr zout" "length zout < 2 ^ 64"
  shows "brotli_compress cd None data = Inl e \<Longrightarrow>
           snd (get_best_algo cd data) =
             Inr (label_code (decide (length data) (length data) (length zout)))"
    and "brotli_compress cd (Some 4) data = Inl e \<Longrightarrow>
           snd (get_best_label cd data) =
             Inr (label_code (decide (length data) (length data) (length zout)))"
  using get_best_algo_decide [OF assms] get_best_label_decide [OF assms] by simp_all

text \<open>
  Claim C9 says that the two label functions agree on every file.  They call Brotli with
  different settings (no quality argument against \<open>quality=4\<close>), so with a Brotli that
  compresses a 1000-byte file to 850 bytes at its default and to 960 bytes at quality 4,
  and a Zstd that gives 900 bytes, the first function answers 0 and the second 1.
\<close>

theorem brotli_quality_counterexample:
  "get_best_algo (fixed_size_codecs 850 960 900) (replicate 1000 65) =
     ([BrotliCall None, ZstdCall 3], Inr 0) \<and>
   get_best_label (fixed_size_codecs 850 960 900) (replicate 1000 65) =
     ([BrotliCall (Some 4), ZstdCall 3], Inr 1)"
proof -
  have calls: "fst (get_best_algo cd (replicate 1000 65)) = [BrotliCall None, ZstdCall 3]"
    "fst (get_best_label cd (replicate 1000 65)) = [BrotliCall (Some 4), ZstdCall 3]" for cd
    by (simp_all add: get_best_algo_def get_best_label_def Let_def split: sum.splits)
  have "zstd_compress (fixed_size_codecs 850 960 900) 3 (replicate 1000 65) = Inr (replicate 900 0)"
    by (simp add: fixed_size_codecs_def)
  then show ?thesis
    using get_best_algo_decide [of "replicate 1000 65" "fixed_size_codecs 850 960 900" "replicate 900 0"]
      get_best_label_decide [of "replicate 1000 65" "fixed_size_codecs 850 960 900" "replicate 900 0"]
    by (simp add: fixed_size_codecs_def decide_exact prod_eq_iff calls)
qed

text \<open>
  Claim C9, amended.  Zstd is called at level 3 by both functions, and the only
  difference is the Brotli setting: whenever Brotli gives the same size at both settings
  (a failure counting as the original size), both functions return the same label or the
  same exception.
\<close>

theorem labels_agree_when_brotli_sizes_agree:
  assumes "(case brotli_compress cd None data of Inr out \<Rightarrow> length out | Inl _ \<Rightarrow> length data) =
           (case brotli_compress cd (Some 4) data of Inr out \<Rightarrow> length out | Inl _ \<Rightarrow> length data)"
  shows "snd (get_best_algo cd data) = snd (get_best_label cd data)"
  using assms
  by (simp add: get_best_algo_def get_best_label_def Let_def split: sum.splits)

theorem labels_agree_witness:
  "(case brotli_compress (fixed_size_codecs 850 850 900) None (replicate 1000 65) of
      Inr out \<Rightarrow> length out | Inl _ \<Rightarrow> length (replicate 1000 (65 :: byte))) =
   (case brotli_compress (fixed_size_codecs 850 850 900) (Some 4) (replicate 1000 65) of
      Inr out \<Rightarrow> length out | Inl _ \<Rightarrow> length (replicate 1000 (65 :: byte))) \<and>
   snd (get_best_algo (fixed_size_codecs 850 850 900) (replicate 1000 65)) =
   snd (get_best_label (fixed_size_codecs 850 850 900) (replicate 1000 65))"
  using labels_agree_when_brotli_sizes_agree
    [where cd = "fixed_size_codecs 850 850 900" and data = "replicate 1000 65"]
  by (simp add: fixed_size_codecs_def)


section \<open>The entropy functions\<close>

lemma histogram_count: "histogram c b = count_list c b"
  by (induction c) (auto simp: histogram_def)

lemma foldl_guarded_sum:
  "foldl (\<lambda>acc x. if P x then acc + t x else acc) a xs =
     a + (\<Sum>x\<leftarrow>xs. if P x then t x else (0::real))"
  by (induction xs arbitrary: a) simp_all

lemma sum_upt_bytes:
  "(\<Sum>x\<leftarrow>[0..<256]. g (of_nat x :: byte)) = (\<Sum>b\<in>UNIV. g b)" for g :: "byte \<Rightarrow> real"
proof -
  have "(\<Sum>x\<leftarrow>[0..<256]. g (of_nat x :: byte)) = (\<Sum>x\<in>{0..<256}. g (of_nat x))"
    by (simp add: interv_sum_list_conv_sum_set_nat)
  also have "\<dots> = (\<Sum>b\<in>(of_nat ` {0..<256} :: byte set). g b)"
    using inj_on_word_of_nat [where 'a = 8]
    by (simp add: sum.reindex)
  also have "(of_nat ` {0..<256} :: byte set) = UNIV"
    using UNIV_word_eq_word_of_nat [where 'a = 8] by simp
  finally show ?thesis .
qed

lemma get_entropy_sum:
  assumes "c \<noteq> []"
  shows "get_entropy c =
    (\<Sum>b\<in>UNIV. if 0 < probability c b then - probability c b * log 2 (probability c b) else 0)"
proof -
  have "get_entropy c =
      foldl (\<lambda>entropy x. if 0 < probability c (of_nat x)
               then entropy + (- probability c (of_nat x) * log 2 (probability c (of_nat x)))
               else entropy) 0 [0..<256]"
    unfolding get_entropy_def probability_def histogram_count Let_def
    using assms by (simp only: if_False)
  also have "\<dots> = 0 + (\<Sum>x\<leftarrow>[0..<256]. if 0 < probability c (of_nat x)
          then - probability c (of_nat x) * log 2 (probability c (of_nat x)) else 0)"
    by (rule foldl_guarded_sum)
  also have "\<dots> = (\<Sum>b\<in>UNIV. if 0 < probability c b
          then - probability c b * log 2 (probability c b) else 0)"
    by (simp only: add_0_left sum_upt_bytes
        [of "\<lambda>b. if 0 < probability c b then - probability c b * log 2 (probability c b) else 0"])
  finally show ?thesis .
qed

lemma get_entropy_shannon:
  assumes "c \<noteq> []"
  shows "get_entropy c = shannon_entropy c"
proof -
  have "(\<Sum>b\<in>UNIV. if 0 < probability c b then - probability c b * log 2 (probability c b) else 0) =
        (\<Sum>b\<in>{b \<in> UNIV. 0 < probability c b}. - probability c b * log 2 (probability c b))"
    by (rule sum.inter_filter [symmetric]) simp
  also have "\<dots> = - (\<Sum>b\<in>{b. 0 < probability c b}. probability c b * log 2 (probability c b))"
    by (simp add: sum_negf)
  finally show ?thesis
    using assms by (simp add: get_entropy_sum shannon_entropy_def)
qed

lemma calculate_entropy_eq: "calculate_entropy c = get_entropy c"
  by (simp add: calculate_entropy_def get_entropy_def)


subsection \<open>Bounds\<close>

lemma probability_nonneg: "0 \<le> probability c b"
  by (simp add: probability_def)

lemma probability_le_1: "probability c b \<le> 1"
proof (cases "c = []")
  case True
  then show ?thesis by (simp add: probability_def)
next
  case False
  have "count_list c b \<le> length c" by (rule count_le_length)
  with False show ?thesis
    by (simp add: probability_def histogram_count)
qed

lemma probability_sum:
  assumes "c \<noteq> []"
  shows "(\<Sum>b\<in>UNIV. probability c b) = 1"
proof -
  have "sum (count_list c) UNIV = length c"
    by (rule sum_count_set) simp_all
  then have "(\<Sum>b\<in>UNIV. real (count_list c b)) = real (length c)"
    by (simp flip: of_nat_sum)
  then have "(\<Sum>b\<in>UNIV. real (count_list c b)) / real (length c) = 1"
    using assms by simp
  then show ?thesis
    by (simp add: probability_def histogram_count sum_divide_distrib)
qed

lemma probability_sum_support:
  assumes "c \<noteq> []"
  shows "(\<Sum>b\<in>{b. 0 < probability c b}. probability c b) = 1"
proof -
  have "(\<Sum>b\<in>{b \<in> UNIV. 0 < probability c b}. probability c b) =
        (\<Sum>b\<in>UNIV. if 0 < probability c b then probability c b else 0)"
    by (rule sum.inter_filter) simp
  also have "\<dots> = (\<Sum>b\<in>UNIV. probability c b)"
    by (rule sum.cong) (use probability_nonneg [of c] in \<open>auto simp: not_less order.antisym\<close>)
  finally show ?thesis using assms by (simp add: probability_sum)
qed

lemma shannon_entropy_nonneg: "0 \<le> shannon_entropy c"
proof -
  have "probability c b * log 2 (probability c b) \<le> 0" if "0 < probability c b" for b
    using that probability_le_1 [of c b]
    by (simp add: mult_nonneg_nonpos)
  then have "(\<Sum>b\<in>{b. 0 < probability c b}. probability c b * log 2 (probability c b)) \<le> 0"
    by (intro sum_nonpos) simp
  then show ?thesis by (simp add: shannon_entropy_def)
qed

lemma gibbs_term:
  fixes p :: real
  assumes "0 < p"
  shows "- (p * log 2 p) \<le> 8 * p + (1 / 256 - p) / ln 2"
proof -
  have ln2: "0 < ln (2::real)" by simp
  have "ln (256::real) = ln (2 ^ 8)" by simp
  also have "\<dots> = 8 * ln 2" by (simp only: ln_realpow of_nat_numeral)
  finally have ln256: "ln (256::real) = 8 * ln 2" .
  have "ln (1 / (256 * p)) \<le> 1 / (256 * p) - 1"
    using assms by (intro ln_le_minus_one) simp
  moreover have "ln (1 / (256 * p)) = - (8 * ln 2 + ln p)"
    using assms by (simp add: ln_div ln_mult ln256)
  ultimately have "- ln p \<le> 8 * ln 2 + 1 / (256 * p) - 1" by simp
  then have "p * (- ln p) \<le> p * (8 * ln 2 + 1 / (256 * p) - 1)"
    using assms by (intro mult_left_mono) simp_all
  also have "\<dots> = 8 * p * ln 2 + (1 / 256 - p)"
    using assms by (simp add: field_simps)
  finally have "- (p * ln p) / ln 2 \<le> (8 * p * ln 2 + (1 / 256 - p)) / ln 2"
    using ln2 by (intro divide_right_mono) simp_all
  then show ?thesis
    using ln2 by (simp add: log_def add_divide_distrib)
qed

lemma shannon_entropy_le_8: "shannon_entropy c \<le> 8"
proof (cases "c = []")
  case True
  then show ?thesis by (simp add: shannon_entropy_def probability_def)
next
  case False
  define S where "S = {b. 0 < probability c b}"
  have "card S \<le> card (UNIV :: byte set)"
    by (intro card_mono) simp_all
  then have card: "real (card S) \<le> 256" by (simp add: card_word)
  have ln2: "0 < ln (2::real)" by simp
  have "shannon_entropy c = (\<Sum>b\<in>S. - (probability c b * log 2 (probability c b)))"
    by (simp add: shannon_entropy_def S_def sum_negf)
  also have "\<dots> \<le> (\<Sum>b\<in>S. 8 * probability c b + (1 / 256 - probability c b) / ln 2)"
    by (intro sum_mono gibbs_term) (simp add: S_def)
  also have "\<dots> = 8 * (\<Sum>b\<in>S. probability c b) +
       (real (card S) / 256 - (\<Sum>b\<in>S. probability c b)) / ln 2"
    by (simp add: sum.distrib sum_distrib_left sum_subtractf diff_divide_distrib
        flip: sum_divide_distrib)
  also have "\<dots> = 8 + (real (card S) / 256 - 1) / ln 2"
    using False by (simp add: S_def probability_sum_support)
  also have "\<dots> \<le> 8"
  proof -
    have "(real (card S) / 256 - 1) / ln 2 \<le> 0"
      using card ln2 by (intro divide_nonpos_pos) simp_all
    then show ?thesis by simp
  qed
  finally show ?thesis .
qed


subsection \<open>Constant and uniform chunks\<close>

lemma get_entropy_constant:
  assumes "0 < n"
  shows "get_entropy (replicate n b) = 0"
proof -
  have p: "probability (replicate n b) x = (if x = b then 1 else 0)" for x
    using assms by (simp add: probability_def histogram_def)
  then have "{x. 0 < probability (replicate n b) x} = {b}" by auto
  then have "shannon_entropy (replicate n b) = 0"
    by (simp add: shannon_entropy_def p)
  moreover have "replicate n b \<noteq> []" using assms by simp
  ultimately show ?thesis by (simp add: get_entropy_shannon)
qed

lemma log2_256th: "log 2 (1 / 256) = - 8"
proof -
  have "ln (256::real) = ln (2 ^ 8)" by simp
  also have "\<dots> = 8 * ln 2" by (simp only: ln_realpow of_nat_numeral)
  finally have "ln (256::real) = 8 * ln 2" .
  then show ?thesis by (simp add: log_def ln_div)
qed

lemma get_entropy_uniform:
  assumes "\<forall>x. histogram u x = 1"
  shows "get_entropy u = 8"
proof -
  have "sum (count_list u) UNIV = length u"
    by (rule sum_count_set) simp_all
  with assms have len: "length u = 256"
    by (simp add: histogram_count card_word)
  then have ne: "u \<noteq> []" by auto
  have p: "probability u x = 1 / 256" for x
    using assms len by (simp add: probability_def)
  have "{x. 0 < probability u x} = UNIV" by (auto simp: p)
  then have "shannon_entropy u = 8"
    by (simp add: shannon_entropy_def p log2_256th card_word)
  with ne show ?thesis by (simp add: get_entropy_shannon)
qed

lemma count_list_distinct: "distinct xs \<Longrightarrow> x \<in> set xs \<Longrightarrow> count_list xs x = 1"
  by (induction xs) auto

lemma all_bytes_once: "histogram (map of_nat [0..<256]) x = 1"
proof -
  have "distinct (map of_nat [0..<256] :: byte list)"
    using inj_on_word_of_nat [where 'a = 8] by (simp add: distinct_map)
  moreover have "x \<in> set (map of_nat [0..<256] :: byte list)"
    using UNIV_word_eq_word_of_nat [where 'a = 8] by simp
  ultimately show ?thesis
    by (simp only: histogram_count count_list_distinct)
qed

text \<open>
  Claim C4.  On every non-empty chunk both entropy functions equal the Shannon entropy
  of the chunk's byte histogram, \<open>- \<Sum> p_i * log2 p_i\<close> over the bins with \<open>p_i > 0\<close>;
  on every chunk the result lies between 0 and 8; it is 0 on the empty chunk and on a
  chunk that repeats one byte, and 8 on a chunk in which each of the 256 byte values
  occurs exactly once.  The arithmetic is that of the real numbers.
\<close>

theorem entropy_is_shannon:
  "(c \<noteq> [] \<longrightarrow> get_entropy c = shannon_entropy c \<and> calculate_entropy c = shannon_entropy c) \<and>
   0 \<le> get_entropy c \<and> get_entropy c \<le> 8 \<and>
   0 \<le> calculate_entropy c \<and> calculate_entropy c \<le> 8 \<and>
   get_entropy [] = 0 \<and> calculate_entropy [] = 0 \<and>
   (0 < n \<longrightarrow> get_entropy (replicate n b) = 0 \<and> calculate_entropy (replicate n b) = 0) \<and>
   ((\<forall>x. histogram u x = 1) \<longrightarrow> get_entropy u = 8 \<and> calculate_entropy u = 8)"
proof -
  have bounds: "0 \<le> get_entropy c \<and> get_entropy c \<le> 8"
  proof (cases "c = []")
    case True
    then show ?thesis by (simp add: get_entropy_def)
  next
    case False
    then show ?thesis
      by (simp add: get_entropy_shannon shannon_entropy_nonneg shannon_entropy_le_8)
  qed
  have empty: "get_entropy [] = 0" by (simp add: get_entropy_def)
  have eq: "c \<noteq> [] \<longrightarrow> get_entropy c = shannon_entropy c"
    by (simp add: get_entropy_shannon)
  have const: "0 < n \<longrightarrow> get_entropy (replicate n b) = 0"
    by (simp add: get_entropy_constant)
  have unif: "(\<forall>x. histogram u x = 1) \<longrightarrow> get_entropy u = 8"
    by (simp add: get_entropy_uniform)
  from bounds empty eq const unif show ?thesis
    by (simp only: calculate_entropy_eq) blast
qed

theorem entropy_is_shannon_witness:
  "[1, 2 :: byte] \<noteq> [] \<and> get_entropy [1, 2] = shannon_entropy [1, 2] \<and>
   (0 :: nat) < 3 \<and> get_entropy (replicate 3 7) = 0 \<and>
   (\<forall>x. histogram (map of_nat [0..<256]) x = 1) \<and>
   get_entropy (map of_nat [0..<256]) = 8"
  using entropy_is_shannon [of "[1, 2]" 3 7 "map of_nat [0..<256]"] all_bytes_once
  by simp


section \<open>The chunk sampler\<close>

lemma chunks_eq:
  "chunks bs = Inr [take 16384 bs, take 16384 (drop (length bs div 2) bs),
                    take 16384 (drop (length bs - 16384) bs)]"
proof -
  have 1: "nat (max 0 (int (length bs) div 2)) = length bs div 2"
    by (simp add: zdiv_int [symmetric] del: zdiv_int)
  have 2: "nat (max 0 (int (length bs) - 16384)) = length bs - 16384"
    by linarith
  have 3: "\<not> max 0 (int (length bs) div 2) < 0" "\<not> max 0 (int (length bs) - 16384) < 0"
    by simp_all
  show ?thesis
    unfolding chunks_def f_open_def f_read_def f_seek_def Let_def
    by (simp only: 1 2 3 if_False prod.case sum.case fileobj.simps fileobj.update_convs drop_0)
qed

lemma extract_features_chunks_eq: "extract_features_chunks bs = chunks bs"
proof -
  have 1: "nat (max 0 (int (length bs) div 2)) = length bs div 2"
    by (simp add: zdiv_int [symmetric] del: zdiv_int)
  have 2: "nat (max 0 (int (length bs) - int 16384)) = length bs - 16384"
    by linarith
  have 3: "\<not> max 0 (int (length bs) div 2) < 0" "\<not> max 0 (int (length bs) - int 16384) < 0"
    by simp_all
  have "extract_features_chunks bs =
      Inr [take 16384 bs, take 16384 (drop (length bs div 2) bs),
           take 16384 (drop (length bs - 16384) bs)]"
    unfolding extract_features_chunks_def CHUNK_SIZE_def f_open_def f_read_def f_seek_def Let_def
    by (simp only: 1 2 3 if_False prod.case sum.case fileobj.simps fileobj.update_convs drop_0)
  then show ?thesis by (simp only: chunks_eq)
qed

lemma chunks_small:
  assumes "length bs < 16384"
  shows "chunks bs = Inr [bs, drop (length bs div 2) bs, bs]"
  using assms by (simp add: chunks_eq)

lemma chunks_all_nonempty:
  assumes "bs \<noteq> []"
  shows "\<exists>c1 c2 c3. chunks bs = Inr [c1, c2, c3] \<and> c1 \<noteq> [] \<and> c2 \<noteq> [] \<and> c3 \<noteq> []"
proof -
  from assms have "0 < length bs" by simp
  then have "\<not> length bs \<le> length bs div 2" "\<not> length bs \<le> length bs - 16384"
    by arith+
  with assms show ?thesis
    by (simp add: chunks_eq)
qed

text \<open>
  Claim C6 says that for a file shorter than the window all three chunks equal the whole
  content.  The middle read starts at half the size: on the two-byte file \<open>[1, 2]\<close> both
  samplers return \<open>[1, 2]\<close>, \<open>[2]\<close> and \<open>[1, 2]\<close>.
\<close>

theorem small_file_chunks_counterexample:
  "chunks [1, 2] = Inr [[1, 2], [2], [1, 2]] \<and>
   extract_features_chunks [1, 2] = Inr [[1, 2], [2], [1, 2]]"
  by (simp add: extract_features_chunks_eq chunks_eq)

text \<open>
  Claim C6, amended.  For a file of size \<open>S\<close> with \<open>0 < S < 16384\<close> both samplers return,
  without an exception, three chunks: head and tail are the whole content, and the
  middle chunk is the content from offset \<open>S div 2\<close> to the end, which is the whole
  content only for \<open>S = 1\<close>.
\<close>

theorem small_file_chunks:
  "0 < length bs \<and> length bs < 16384 \<longrightarrow>
     chunks bs = Inr [bs, drop (length bs div 2) bs, bs] \<and>
     extract_features_chunks bs = Inr [bs, drop (length bs div 2) bs, bs] \<and>
     (drop (length bs div 2) bs = bs) = (length bs = 1)"
proof (intro impI)
  assume h: "0 < length bs \<and> length bs < 16384"
  have "(drop (length bs div 2) bs = bs) = (length bs = 1)"
  proof
    assume "drop (length bs div 2) bs = bs"
    then have "length (drop (length bs div 2) bs) = length bs" by simp
    then have "length bs - length bs div 2 = length bs" by simp
    with h show "length bs = 1" by arith
  next
    assume "length bs = 1"
    then show "drop (length bs div 2) bs = bs" by simp
  qed
  with h show "chunks bs = Inr [bs, drop (length bs div 2) bs, bs] \<and>
     extract_features_chunks bs = Inr [bs, drop (length bs div 2) bs, bs] \<and>
     (drop (length bs div 2) bs = bs) = (length bs = 1)"
    by (simp add: extract_features_chunks_eq chunks_small)
qed

theorem small_file_chunks_witness:
  "0 < length [1, 2, 3 :: byte] \<and> length [1, 2, 3 :: byte] < 16384 \<and>
   chunks [1, 2, 3] = Inr [[1, 2, 3], [2, 3], [1, 2, 3]] \<and>
   extract_features_chunks [1, 2, 3] = Inr [[1, 2, 3], [2, 3], [1, 2, 3]]"
  using small_file_chunks [of "[1, 2, 3]"] by simp

section \<open>The average entropy\<close>

lemma silesia_mean:
  "extract_features_avg_entropy cs = mean_entropy_nonempty cs"
proof -
  define ne where "ne = filter (\<lambda>c. c \<noteq> []) cs"
  have m: "map calculate_entropy ne = map shannon_entropy ne"
    by (rule map_cong) (simp_all add: ne_def calculate_entropy_eq get_entropy_shannon)
  show ?thesis
    unfolding extract_features_avg_entropy_def mean_entropy_nonempty_def Let_def
      ne_def [symmetric] m
    by simp
qed

lemma mean_all_empty: "mean_entropy_nonempty (replicate k []) = 0"
  by (simp add: mean_entropy_nonempty_def)

lemma real_model_mean:
  assumes "chunks bs = Inr cs"
  shows "avg_entropy cs = Inr (mean_entropy_nonempty cs)"
proof (cases "bs = []")
  case True
  with assms have "cs = [[], [], []]" by (simp add: chunks_empty)
  then show ?thesis
    by (simp add: avg_entropy_def mean_entropy_nonempty_def get_entropy_def)
next
  case False
  then obtain c1 c2 c3 where "chunks bs = Inr [c1, c2, c3]" "c1 \<noteq> []" "c2 \<noteq> []" "c3 \<noteq> []"
    using chunks_all_nonempty by blast
  with assms show ?thesis
    by (auto simp: avg_entropy_def mean_entropy_nonempty_def get_entropy_shannon)
qed

text \<open>
  On a list that mixes empty and non-empty chunks the mean of \<^verbatim>\<open>train_real_model.py\<close>
  counts the empty ones; no file gives such a list.
\<close>

lemma real_model_mean_mixed:
  assumes "c \<noteq> []"
  shows "avg_entropy [c, []] = Inr (shannon_entropy c / 2)"
    and "mean_entropy_nonempty [c, []] = shannon_entropy c"
proof -
  have "get_entropy [] = 0" by (simp add: get_entropy_def)
  with assms show "avg_entropy [c, []] = Inr (shannon_entropy c / 2)"
    by (simp add: avg_entropy_def get_entropy_shannon)
  from assms show "mean_entropy_nonempty [c, []] = shannon_entropy c"
    by (simp add: mean_entropy_nonempty_def)
qed

text \<open>
  Claim C5.  The average of \<^verbatim>\<open>train_silesia.py\<close> is, on every list of chunks, the
  arithmetic mean of the entropies of the non-empty chunks, and 0 when all are empty.
  For every file, the head, middle and tail chunks that either script reads have an
  average entropy, as that script computes it, equal to this mean.
\<close>

theorem average_entropy_is_mean_of_nonempty:
  "extract_features_avg_entropy cs = mean_entropy_nonempty cs \<and>
   mean_entropy_nonempty (replicate k []) = 0 \<and>
   (\<exists>sample. chunks bs = Inr sample \<and>
      avg_entropy sample = Inr (mean_entropy_nonempty sample)) \<and>
   (\<exists>sample. extract_features_chunks bs = Inr sample \<and>
      extract_features_avg_entropy sample = mean_entropy_nonempty sample)"
proof -
  obtain sample where s: "chunks bs = Inr sample"
    by (simp add: chunks_eq)
  then have "avg_entropy sample = Inr (mean_entropy_nonempty sample)"
    by (rule real_model_mean)
  with s show ?thesis
    by (simp add: silesia_mean mean_all_empty extract_features_chunks_eq)
qed


section \<open>The type hint\<close>

lemma py_split_no_sep: "sep \<notin> set s \<Longrightarrow> py_split sep s = [s]"
  by (induction s) auto


lemma py_split_at_sep: "py_split sep (a @ sep # b) = py_split sep a @ py_split sep b"
proof (induction a)
  case Nil
  then show ?case by simp
next
  case (Cons c a)
  obtain w ws where "py_split sep a = w # ws"
    using py_split_nonempty [of sep a] by (cases "py_split sep a") auto
  with Cons show ?case by simp
qed

lemma last_py_split:
  assumes "sep \<notin> set e"
  shows "last (py_split sep (stem @ sep # e)) = e"
  using assms by (simp add: py_split_at_sep py_split_no_sep)

lemma lower_char_eq_dot [simp]: "(lower_char c = CHR ''.'') = (c = CHR ''.'')"
proof -
  have "of_char c < (256::nat)" by simp
  then show ?thesis
    by (auto simp: lower_char_def Let_def char_of_eq_iff take_bit_eq_mod)
qed

lemma lower_char_eq_slash [simp]: "(lower_char c = CHR ''/'') = (c = CHR ''/'')"
proof -
  have "of_char c < (256::nat)" by simp
  then show ?thesis
    by (auto simp: lower_char_def Let_def char_of_eq_iff take_bit_eq_mod)
qed

lemma py_split_lower:
  "py_split (CHR ''.'') (py_lower s) = map py_lower (py_split (CHR ''.'') s)"
proof (induction s)
  case Nil
  then show ?case by (simp add: py_lower_def)
next
  case (Cons c s)
  obtain w ws where "py_split (CHR ''.'') s = w # ws"
    using py_split_nonempty [of "CHR ''.''" s] by (cases "py_split (CHR ''.'') s") auto
  with Cons show ?case by (auto simp: py_lower_def)
qed

lemma ext_lower:
  "py_lower (last (py_split (CHR ''.'') s)) = last (py_split (CHR ''.'') (py_lower s))"
  by (simp add: py_split_lower last_map py_split_nonempty)

lemma basename_lower: "basename (py_lower p) = py_lower (basename p)"
  by (simp add: basename_def py_lower_def rev_map takeWhile_map comp_def)

lemma basename_join:
  assumes "CHR ''/'' \<notin> set filename"
  shows "basename (dir @ ''/'' @ filename) = filename"
proof -
  have "takeWhile (\<lambda>c. c \<noteq> CHR ''/'') (rev filename @ CHR ''/'' # rev dir) = rev filename"
    using assms by (subst takeWhile_append2) auto
  then show ?thesis by (simp add: basename_def)
qed

lemma hint_examples: "hint ''txt'' = Inr 1" "hint ''photo.JPG'' = Inr 2" "hint ''a.b.c'' = Inr 0"
  by (simp_all add: hint_def py_last_def py_lower_def lower_char_def Let_def
      char_of_eq_iff take_bit_eq_mod)

lemma extract_features_hint_examples: "extract_features_hint ''dataset/silesia/dickens'' = 1"
  "extract_features_hint ''synthetic_compressed/dickens.zst'' = 2"
  "extract_features_hint ''MR'' = 2"  "extract_features_hint ''mozilla'' = 0"
  by (simp_all add: extract_features_hint_def basename_def py_endswith_def py_lower_def
      lower_char_def Let_def char_of_eq_iff take_bit_eq_mod)

lemma py_lower_examples:
  "py_lower ''A.Jpg'' = ''a.jpg''" "py_lower ''a.jPG'' = ''a.jpg''"
  "py_lower ''TXT'' = ''txt''" "py_lower ''ZIP'' = ''zip''"
  by (simp_all add: py_lower_def lower_char_def Let_def char_of_eq_iff take_bit_eq_mod)

lemma hint_value:
  "hint filename =
     Inr (let ext = py_lower (last (py_split (CHR ''.'') filename))
          in if ext \<in> {''txt'', ''csv'', ''js'', ''md''} then 1
             else if ext \<in> {''jpg'', ''mp4'', ''zip''} then 2 else 0)"
  by (simp add: hint_def py_last_def py_split_nonempty Let_def)

lemma hint_with_dot:
  assumes "CHR ''.'' \<notin> set e"
  shows "hint (stem @ ''.'' @ e) =
     Inr (if py_lower e \<in> {''txt'', ''csv'', ''js'', ''md''} then 1
          else if py_lower e \<in> {''jpg'', ''mp4'', ''zip''} then 2 else 0)"
  using assms by (simp add: hint_value last_py_split Let_def)

lemma hint_without_dot:
  assumes "CHR ''.'' \<notin> set filename"
  shows "hint filename =
     Inr (if py_lower filename \<in> {''txt'', ''csv'', ''js'', ''md''} then 1
          else if py_lower filename \<in> {''jpg'', ''mp4'', ''zip''} then 2 else 0)"
  using assms by (simp add: hint_value py_split_no_sep Let_def)

lemma hint_lower: "py_lower f1 = py_lower f2 \<Longrightarrow> hint f1 = hint f2"
  by (simp add: hint_value ext_lower)

lemma extract_features_hint_value:
  "extract_features_hint file_path =
     (let name = py_lower (basename file_path)
      in if name \<in> {''dickens'', ''samba'', ''webster'', ''xml''} then 1
         else if py_endswith name ''.zst'' \<or> name = ''mr'' then 2 else 0)"
  by (auto simp: extract_features_hint_def Let_def py_endswith_def)

lemma extract_features_hint_lower:
  "py_lower f1 = py_lower f2 \<Longrightarrow> extract_features_hint f1 = extract_features_hint f2"
proof -
  assume "py_lower f1 = py_lower f2"
  then have "basename (py_lower f1) = basename (py_lower f2)" by simp
  then have "py_lower (basename f1) = py_lower (basename f2)"
    by (simp only: basename_lower)
  then show ?thesis by (simp add: extract_features_hint_def)
qed

lemma py_endswith_iff: "py_endswith s suf = (\<exists>p. s = p @ suf)"
proof
  assume "py_endswith s suf"
  then have "s = take (length s - length suf) s @ suf"
    by (metis append_take_drop_id py_endswith_def)
  then show "\<exists>p. s = p @ suf" ..
next
  assume "\<exists>p. s = p @ suf"
  then show "py_endswith s suf" by (auto simp: py_endswith_def)
qed

lemma name_forms:
  "CHR ''.'' \<notin> set f \<or> (\<exists>stem e. f = stem @ ''.'' @ e \<and> CHR ''.'' \<notin> set e)"
proof (cases "CHR ''.'' \<in> set f")
  case True
  then obtain ys zs where "f = ys @ CHR ''.'' # zs" "CHR ''.'' \<notin> set zs"
    by (meson split_list_last)
  then have "f = ys @ ''.'' @ zs \<and> CHR ''.'' \<notin> set zs" by simp
  then show ?thesis by blast
next
  case False
  then show ?thesis by simp
qed

lemma silesia_text:
  "py_lower (basename p) \<in> {''dickens'', ''samba'', ''webster'', ''xml''} \<Longrightarrow>
     extract_features_hint p = 1"
  by (auto simp: extract_features_hint_value Let_def)

lemma silesia_media:
  "py_lower (basename p) = s @ ''.zst'' \<or> py_lower (basename p) = ''mr'' \<Longrightarrow>
     extract_features_hint p = 2"
proof -
  assume a: "py_lower (basename p) = s @ ''.zst'' \<or> py_lower (basename p) = ''mr''"
  then have z: "py_endswith (py_lower (basename p)) ''.zst'' \<or> py_lower (basename p) = ''mr''"
    by (auto simp: py_endswith_iff)
  have "py_lower (basename p) \<notin> {''dickens'', ''samba'', ''webster'', ''xml''}"
    using z by (auto simp: py_endswith_def)
  with z show ?thesis
    by (simp add: extract_features_hint_value Let_def)
qed

lemma silesia_generic:
  assumes "py_lower (basename p) \<notin> {''dickens'', ''samba'', ''webster'', ''xml'', ''mr''}"
    and "\<forall>s. py_lower (basename p) \<noteq> s @ ''.zst''"
  shows "extract_features_hint p = 0"
proof -
  from assms(2) have "\<not> py_endswith (py_lower (basename p)) ''.zst''"
    by (simp add: py_endswith_iff)
  with assms(1) show ?thesis
    by (simp add: extract_features_hint_value Let_def)
qed

text \<open>
  Claim C7 describes one classifier that holds the extension lists, the base-name list
  and the \<open>.zst\<close>/\<open>mr\<close> rule together.  Each script has only its own half: the
  classifier of \<^verbatim>\<open>train_real_model.py\<close> gives 0 (Generic) to \<open>dickens\<close>, \<open>mr\<close> and
  \<open>dickens.zst\<close>, and the one of \<^verbatim>\<open>train_silesia.py\<close> gives 0 to \<open>a.txt\<close> and
  \<open>a.zip\<close>.
\<close>

theorem type_hint_single_table_counterexample:
  "hint ''dickens'' = Inr 0 \<and> hint ''mr'' = Inr 0 \<and> hint ''dickens.zst'' = Inr 0 \<and>
   extract_features_hint ''a.txt'' = 0 \<and> extract_features_hint ''a.zip'' = 0"
  by (simp add: hint_def py_last_def extract_features_hint_def basename_def py_endswith_def
      py_lower_def lower_char_def Let_def char_of_eq_iff take_bit_eq_mod)

text \<open>
  Claim C7, amended.  Each script has its own classifier, total and case-insensitive:
  every name gets exactly one hint among 0, 1 and 2 and no exception is raised.  In
  \<^verbatim>\<open>train_real_model.py\<close> only the lower-cased piece after the last dot (the whole
  name when there is no dot) decides: \<open>txt\<close>, \<open>csv\<close>, \<open>js\<close>, \<open>md\<close> give 1 (Text),
  \<open>jpg\<close>, \<open>mp4\<close>, \<open>zip\<close> give 2 (Media), anything else 0 (Generic).  In
  \<^verbatim>\<open>train_silesia.py\<close> only the lower-cased base name decides: \<open>dickens\<close>, \<open>samba\<close>,
  \<open>webster\<close>, \<open>xml\<close> give 1, a name of the form \<open>t @ ''.zst''\<close> or equal to \<open>mr\<close>
  gives 2, anything else 0.  Names that agree after lower-casing get the same hint, and
  the directory in front of a file name does not matter.
\<close>

theorem type_hint_per_script:
  "(\<exists>h. h \<le> 2 \<and> hint filename = Inr h) \<and>
   extract_features_hint file_path \<le> 2 \<and>
   hint filename =
     Inr (let ext = py_lower (last (py_split (CHR ''.'') filename))
          in if ext \<in> {''txt'', ''csv'', ''js'', ''md''} then 1
             else if ext \<in> {''jpg'', ''mp4'', ''zip''} then 2 else 0) \<and>
   (CHR ''.'' \<notin> set e \<longrightarrow>
      hint (stem @ ''.'' @ e) =
        Inr (if py_lower e \<in> {''txt'', ''csv'', ''js'', ''md''} then 1
             else if py_lower e \<in> {''jpg'', ''mp4'', ''zip''} then 2 else 0)) \<and>
   (CHR ''.'' \<notin> set d \<longrightarrow>
      hint d =
        Inr (if py_lower d \<in> {''txt'', ''csv'', ''js'', ''md''} then 1
             else if py_lower d \<in> {''jpg'', ''mp4'', ''zip''} then 2 else 0)) \<and>
   extract_features_hint file_path =
     (let name = py_lower (basename file_path)
      in if name \<in> {''dickens'', ''samba'', ''webster'', ''xml''} then 1
         else if py_endswith name ''.zst'' \<or> name = ''mr'' then 2 else 0) \<and>
   (py_lower (basename p1) \<in> {''dickens'', ''samba'', ''webster'', ''xml''} \<longrightarrow>
      extract_features_hint p1 = 1) \<and>
   (py_lower (basename p2) = s @ ''.zst'' \<or> py_lower (basename p2) = ''mr'' \<longrightarrow>
      extract_features_hint p2 = 2) \<and>
   (py_lower (basename p3) \<notin> {''dickens'', ''samba'', ''webster'', ''xml'', ''mr''} \<and>
    (\<forall>t. py_lower (basename p3) \<noteq> t @ ''.zst'') \<longrightarrow>
      extract_features_hint p3 = 0) \<and>
   (py_lower f1 = py_lower f2 \<longrightarrow>
      hint f1 = hint f2 \<and> extract_features_hint f1 = extract_features_hint f2) \<and>
   (CHR ''/'' \<notin> set name \<longrightarrow>
      basename (dir @ ''/'' @ name) = name \<and>
      extract_features_hint (dir @ ''/'' @ name) = extract_features_hint name)"
proof -
  have 1: "\<exists>h. h \<le> 2 \<and> hint filename = Inr h"
    by (simp add: hint_value Let_def)
  have 2: "extract_features_hint file_path \<le> 2"
    by (simp add: extract_features_hint_def Let_def)
  have 3: "CHR ''/'' \<notin> set name \<longrightarrow>
      basename (dir @ ''/'' @ name) = name \<and>
      extract_features_hint (dir @ ''/'' @ name) = extract_features_hint name"
  proof
    assume n: "CHR ''/'' \<notin> set name"
    then have "takeWhile (\<lambda>c. c \<noteq> CHR ''/'') (rev name) = rev name"
      by (intro takeWhile_eq_all_conv [THEN iffD2]) auto
    then have "basename name = name"
      by (simp only: basename_def rev_rev_ident)
    moreover have j: "basename (dir @ ''/'' @ name) = name"
      using n by (rule basename_join)
    ultimately have "basename (dir @ ''/'' @ name) = basename name" by simp
    then have "extract_features_hint (dir @ ''/'' @ name) = extract_features_hint name"
      unfolding extract_features_hint_def by (simp only:)
    with j show "basename (dir @ ''/'' @ name) = name \<and>
      extract_features_hint (dir @ ''/'' @ name) = extract_features_hint name" ..
  qed
  have 4: "py_lower (basename p3) \<notin> {''dickens'', ''samba'', ''webster'', ''xml'', ''mr''} \<and>
    (\<forall>t. py_lower (basename p3) \<noteq> t @ ''.zst'') \<longrightarrow> extract_features_hint p3 = 0"
    using silesia_generic [of p3] by blast
  note hint_value [of filename] hint_with_dot [of e stem] hint_without_dot [of d]
    extract_features_hint_value [of file_path]
    silesia_text [of p1] silesia_media [of p2 s]
    hint_lower [of f1 f2] extract_features_hint_lower [of f1 f2]
  with 1 2 3 4 show ?thesis by blast
qed

lemma py_lower_paths:
  "py_lower (basename ''dataset/silesia/Dickens'') = ''dickens''"
  "py_lower (basename ''synthetic_compressed/dickens.zst'') = ''dickens'' @ ''.zst''"
  "py_lower (basename ''mozilla'') = ''mozilla''"
  "py_lower ''JPG'' = ''jpg''"
  by (simp_all add: basename_def py_lower_def lower_char_def Let_def char_of_eq_iff take_bit_eq_mod)

theorem type_hint_per_script_witness:
  "CHR ''.'' \<notin> set ''TXT'' \<and> hint (''Report'' @ ''.'' @ ''TXT'') = Inr 1 \<and>
   CHR ''.'' \<notin> set ''JPG'' \<and> hint ''JPG'' = Inr 2 \<and>
   py_lower (basename ''dataset/silesia/Dickens'') \<in> {''dickens'', ''samba'', ''webster'', ''xml''} \<and>
   extract_features_hint ''dataset/silesia/Dickens'' = 1 \<and>
   py_lower (basename ''synthetic_compressed/dickens.zst'') = ''dickens'' @ ''.zst'' \<and>
   extract_features_hint ''synthetic_compressed/dickens.zst'' = 2 \<and>
   py_lower (basename ''mozilla'') \<notin> {''dickens'', ''samba'', ''webster'', ''xml'', ''mr''} \<and>
   (\<forall>t. py_lower (basename ''mozilla'') \<noteq> t @ ''.zst'') \<and>
   extract_features_hint ''mozilla'' = 0 \<and>
   py_lower ''A.Jpg'' = py_lower ''a.jPG'' \<and> hint ''A.Jpg'' = hint ''a.jPG'' \<and>
   extract_features_hint ''A.Jpg'' = extract_features_hint ''a.jPG'' \<and>
   CHR ''/'' \<notin> set ''dickens'' \<and>
   extract_features_hint (''dataset/silesia'' @ ''/'' @ ''dickens'') = extract_features_hint ''dickens''"
proof -
  have a: "CHR ''.'' \<notin> set ''TXT''" "CHR ''.'' \<notin> set ''JPG''" by simp_all
  have b: "py_lower ''A.Jpg'' = py_lower ''a.jPG''" by (simp only: py_lower_examples)
  have c: "CHR ''/'' \<notin> set ''dickens''" by simp
  have d: "(if py_lower ''TXT'' \<in> {''txt'', ''csv'', ''js'', ''md''} then 1
             else if py_lower ''TXT'' \<in> {''jpg'', ''mp4'', ''zip''} then 2 else 0) = (1::nat)"
    "(if py_lower ''JPG'' \<in> {''txt'', ''csv'', ''js'', ''md''} then 1
             else if py_lower ''JPG'' \<in> {''jpg'', ''mp4'', ''zip''} then 2 else 0) = (2::nat)"
    by (simp_all add: py_lower_examples py_lower_paths)
  have p1: "py_lower (basename ''dataset/silesia/Dickens'') \<in> {''dickens'', ''samba'', ''webster'', ''xml''}"
    by (simp add: py_lower_paths)
  have p2: "py_lower (basename ''synthetic_compressed/dickens.zst'') = ''dickens'' @ ''.zst''"
    by (rule py_lower_paths)
  have p3: "py_lower (basename ''mozilla'') \<notin> {''dickens'', ''samba'', ''webster'', ''xml'', ''mr''}"
    by (simp add: py_lower_paths)
  have "\<not> py_endswith (py_lower (basename ''mozilla'')) ''.zst''"
    by (simp add: py_lower_paths py_endswith_def)
  then have p3': "\<forall>t. py_lower (basename ''mozilla'') \<noteq> t @ ''.zst''"
    by (simp add: py_endswith_iff)
  note t = type_hint_per_script [of "''Report.TXT''" "''mozilla''" "''TXT''" "''Report''" "''JPG''"
      "''dataset/silesia/Dickens''" "''synthetic_compressed/dickens.zst''" "''dickens''"
      "''mozilla''" "''A.Jpg''" "''a.jPG''" "''dickens''" "''dataset/silesia''"]
  from t a have "hint (''Report'' @ ''.'' @ ''TXT'') =
        Inr (if py_lower ''TXT'' \<in> {''txt'', ''csv'', ''js'', ''md''} then 1
             else if py_lower ''TXT'' \<in> {''jpg'', ''mp4'', ''zip''} then 2 else 0)"
    by blast
  then have 1: "hint (''Report'' @ ''.'' @ ''TXT'') = Inr 1" by (simp only: d)
  from t a have "hint ''JPG'' =
        Inr (if py_lower ''JPG'' \<in> {''txt'', ''csv'', ''js'', ''md''} then 1
             else if py_lower ''JPG'' \<in> {''jpg'', ''mp4'', ''zip''} then 2 else 0)"
    by blast
  then have 2: "hint ''JPG'' = Inr 2" by (simp only: d)
  from t p1 have 3: "extract_features_hint ''dataset/silesia/Dickens'' = 1" by blast
  from t p2 have 4: "extract_features_hint ''synthetic_compressed/dickens.zst'' = 2" by blast
  from t p3 p3' have 5: "extract_features_hint ''mozilla'' = 0" by blast
  from t b have 6: "hint ''A.Jpg'' = hint ''a.jPG'' \<and>
      extract_features_hint ''A.Jpg'' = extract_features_hint ''a.jPG''"
    by blast
  from t c have 7: "extract_features_hint (''dataset/silesia'' @ ''/'' @ ''dickens'') =
      extract_features_hint ''dickens''"
    by blast
  from a b c p1 p2 p3 p3' 1 2 3 4 5 6 7 show ?thesis by blast
qed

text \<open>
  Claim C10.  For a file name without a dot the classifier of \<^verbatim>\<open>train_real_model.py\<close>
  takes the whole name as the extension: the names \<open>txt\<close>, \<open>csv\<close>, \<open>js\<close> and \<open>md\<close>
  get 1 (Text) and the names \<open>jpg\<close>, \<open>mp4\<close> and \<open>zip\<close> get 2 (Media).
\<close>

theorem extension_of_dotless_name:
  "(CHR ''.'' \<notin> set filename \<longrightarrow>
      hint filename =
        Inr (if py_lower filename \<in> {''txt'', ''csv'', ''js'', ''md''} then 1
             else if py_lower filename \<in> {''jpg'', ''mp4'', ''zip''} then 2 else 0)) \<and>
   hint ''txt'' = Inr 1 \<and> hint ''csv'' = Inr 1 \<and> hint ''js'' = Inr 1 \<and> hint ''md'' = Inr 1 \<and>
   hint ''jpg'' = Inr 2 \<and> hint ''mp4'' = Inr 2 \<and> hint ''zip'' = Inr 2"
proof -
  have "hint ''txt'' = Inr 1 \<and> hint ''csv'' = Inr 1 \<and> hint ''js'' = Inr 1 \<and> hint ''md'' = Inr 1 \<and>
   hint ''jpg'' = Inr 2 \<and> hint ''mp4'' = Inr 2 \<and> hint ''zip'' = Inr 2"
    by (simp add: hint_def py_last_def py_lower_def lower_char_def Let_def
      char_of_eq_iff take_bit_eq_mod)
  with hint_without_dot [of filename] show ?thesis by blast
qed

theorem extension_of_dotless_name_witness:
  "CHR ''.'' \<notin> set ''ZIP'' \<and> hint ''ZIP'' = Inr 2"
proof -
  have a: "CHR ''.'' \<notin> set ''ZIP''" by simp
  have d: "(if py_lower ''ZIP'' \<in> {''txt'', ''csv'', ''js'', ''md''} then 1
             else if py_lower ''ZIP'' \<in> {''jpg'', ''mp4'', ''zip''} then 2 else 0) = (2::nat)"
    by (simp add: py_lower_examples)
  from extension_of_dotless_name [of "''ZIP''"] a
  have "hint ''ZIP'' =
        Inr (if py_lower ''ZIP'' \<in> {''txt'', ''csv'', ''js'', ''md''} then 1
             else if py_lower ''ZIP'' \<in> {''jpg'', ''mp4'', ''zip''} then 2 else 0)"
    by blast
  then have "hint ''ZIP'' = Inr 2" by (simp only: d)
  with a show ?thesis by blast
qed


section \<open>The feature row and the label range\<close>

lemma label_range_algo: "snd (get_best_algo cd data) = Inr l \<Longrightarrow> l \<le> 2"
  by (auto simp: get_best_algo_def Let_def split: if_splits sum.splits)

lemma label_range_label: "snd (get_best_label cd data) = Inr l \<Longrightarrow> l \<le> 2"
  by (auto simp: get_best_label_def Let_def split: if_splits sum.splits)

lemma features_row:
  assumes "chunks bs = Inr cs" "hint filename = Inr h"
  shows "features filename bs = Inr [mean_entropy_nonempty cs, log 10 (real (length bs + 1)), real h]"
  using assms real_model_mean [OF assms(1)]
  by (simp add: features_def)

lemma extract_features_row:
  assumes "chunks bs = Inr cs"
  shows "extract_features file_path bs =
     Inr [mean_entropy_nonempty cs, log 10 (real (length bs + 1)),
          real (extract_features_hint file_path)]"
  using assms
  by (simp add: extract_features_def extract_features_chunks_eq silesia_mean)

text \<open>
  The six literal rows of \<^verbatim>\<open>train_model.py\<close> have three values each and labels among
  0, 1 and 2.  No code computes them; a comment names their columns.
\<close>

lemma synthetic_rows_shape:
  "map length X_synthetic = [3, 3, 3, 3, 3, 3]" "set y_synthetic \<subseteq> {0, 1, 2}"
  by (simp_all add: X_synthetic_def y_synthetic_def)

lemma synthetic_first_row: "X_synthetic ! 0 = [5 / 2, 1 / 2, 0]" "X_synthetic ! 0 ! 1 = 1 / 2"
  by (simp_all add: X_synthetic_def)

lemma sqrt10_bounds: "3 < (10::real) powr (1 / 2)" "(10::real) powr (1 / 2) < 4"
proof -
  have s: "(10::real) powr (1 / 2) = sqrt 10" by (simp add: powr_half_sqrt)
  show "3 < (10::real) powr (1 / 2)"
    unfolding s by (rule real_less_rsqrt) simp
  show "(10::real) powr (1 / 2) < 4"
    unfolding s by (rule real_less_lsqrt) simp_all
qed

lemma log10_around_half: "log 10 (real (2 + 1)) < 1 / 2" "1 / 2 < log 10 (real (3 + 1))"
proof -
  from sqrt10_bounds(1) have "log 10 3 < (1 / 2 :: real)"
    by (subst log_less_iff) simp_all
  then show "log 10 (real (2 + 1)) < 1 / 2" by simp
  from sqrt10_bounds(2) have "(1 / 2 :: real) < log 10 4"
    by (subst less_log_iff) simp_all
  then show "1 / 2 < log 10 (real (3 + 1))" by simp
qed

lemma log10_size_mono: "m \<le> n \<Longrightarrow> log 10 (real (m + 1)) \<le> log 10 (real (n + 1))"
  by simp

lemma no_size_has_log_half: "log 10 (real (S + 1)) \<noteq> 1 / 2"
proof (cases "S \<le> 2")
  case True
  then have "log 10 (real (S + 1)) \<le> log 10 (real (2 + 1))"
    by (rule log10_size_mono)
  with log10_around_half(1) show ?thesis by linarith
next
  case False
  then have "3 \<le> S" by simp
  then have "log 10 (real (3 + 1)) \<le> log 10 (real (S + 1))"
    by (rule log10_size_mono)
  with log10_around_half(2) show ?thesis by linarith
qed

text \<open>
  Claim C8 says that the layout \<open>[avgEntropy, log10 (fileSize + 1), typeHint]\<close> is the
  same in every training variant.  \<^verbatim>\<open>train_model.py\<close> trains on literal rows whose
  columns its comment names \<open>[Entropy, FileSize (MB), Is_Binary]\<close>: the second value of
  its first row, 0.5, lies strictly between \<open>log10 (2 + 1)\<close> and \<open>log10 (3 + 1)\<close>, so it
  is \<open>log10 (fileSize + 1)\<close> for no file size.
\<close>

theorem synthetic_row_layout_counterexample:
  "X_synthetic ! 0 = [5 / 2, 1 / 2, 0] \<and>
   log 10 (real (2 + 1)) < X_synthetic ! 0 ! 1 \<and>
   X_synthetic ! 0 ! 1 < log 10 (real (3 + 1))"
  using log10_around_half by (simp only: synthetic_first_row) simp

lemma algo_name_values:
  "algo_name 0 = Inr ''Brotli''" "algo_name 1 = Inr ''Zstd''" "algo_name 2 = Inr ''None''"
  by (simp_all add: algo_name_def)

lemma synthetic_third_column: "map (\<lambda>row. row ! 2) X_synthetic = [0, 0, 1, 1, 1, 1]"
  by (simp add: X_synthetic_def)

text \<open>
  Claim C8, amended.  For every file the feature builders of \<^verbatim>\<open>train_real_model.py\<close>
  and \<^verbatim>\<open>train_silesia.py\<close> return, without an exception, a row of exactly three
  values in the order average entropy of the sampled chunks, \<open>log10 (size + 1)\<close>, type
  hint, with the hint an integer among 0, 1 and 2.  Every label that a label function
  returns is 0, 1 or 2, and it is the code of the decision: 0 for \<open>AlgoA\<close> (printed
  \<open>Brotli\<close>), 1 for \<open>AlgoB\<close> (printed \<open>Zstd\<close>), 2 for \<open>None\<close>, which is also the label
  of the empty file.  The literal rows of \<^verbatim>\<open>train_model.py\<close> have three values each,
  a third value of 0 or 1 and labels among 0, 1 and 2, but not this layout: no file size
  has the second value of the first row as its \<open>log10 (size + 1)\<close>.
\<close>

theorem feature_and_label_layout:
  "(\<exists>sample h.
      chunks bs = Inr sample \<and> extract_features_chunks bs = Inr sample \<and>
      hint filename = Inr h \<and> h \<le> 2 \<and> extract_features_hint file_path \<le> 2 \<and>
      features filename bs =
        Inr [mean_entropy_nonempty sample, log 10 (real (length bs + 1)), real h] \<and>
      extract_features file_path bs =
        Inr [mean_entropy_nonempty sample, log 10 (real (length bs + 1)),
             real (extract_features_hint file_path)]) \<and>
   (snd (get_best_algo cd data) = Inr l \<longrightarrow> l \<le> 2) \<and>
   (snd (get_best_label cd data) = Inr l \<longrightarrow> l \<le> 2) \<and>
   (0 < length data \<and> length data < 2 ^ 64 \<and>
    zstd_compress cd 3 data = Inr zout \<and> length zout < 2 ^ 64 \<longrightarrow>
      snd (get_best_algo cd data) =
        Inr (label_code (decide (length data)
               (case brotli_compress cd None data of
                  Inr out \<Rightarrow> length out | Inl _ \<Rightarrow> length data)
               (length zout))) \<and>
      snd (get_best_label cd data) =
        Inr (label_code (decide (length data)
               (case brotli_compress cd (Some 4) data of
                  Inr out \<Rightarrow> length out | Inl _ \<Rightarrow> length data)
               (length zout)))) \<and>
   snd (get_best_algo cd []) = Inr (label_code NoCompression) \<and>
   snd (get_best_label cd []) = Inr (label_code NoCompression) \<and>
   label_code AlgoA = 0 \<and> label_code AlgoB = 1 \<and> label_code NoCompression = 2 \<and>
   algo_name (label_code AlgoA) = Inr ''Brotli'' \<and>
   algo_name (label_code AlgoB) = Inr ''Zstd'' \<and>
   algo_name (label_code NoCompression) = Inr ''None'' \<and>
   map length X_synthetic = [3, 3, 3, 3, 3, 3] \<and>
   map (\<lambda>row. row ! 2) X_synthetic = [0, 0, 1, 1, 1, 1] \<and>
   set y_synthetic \<subseteq> {0, 1, 2} \<and>
   (\<forall>S. log 10 (real (S + 1)) \<noteq> X_synthetic ! 0 ! 1)"
proof -
  obtain sample where s: "chunks bs = Inr sample" by (simp add: chunks_eq)
  obtain h where h: "h \<le> 2" "hint filename = Inr h" using hint_range by blast
  have "extract_features_hint file_path \<le> 2"
    by (simp add: extract_features_hint_def Let_def)
  with s h features_row [OF s h(2)] extract_features_row [OF s, of file_path]
  have rows: "\<exists>sample h.
      chunks bs = Inr sample \<and> extract_features_chunks bs = Inr sample \<and>
      hint filename = Inr h \<and> h \<le> 2 \<and> extract_features_hint file_path \<le> 2 \<and>
      features filename bs =
        Inr [mean_entropy_nonempty sample, log 10 (real (length bs + 1)), real h] \<and>
      extract_features file_path bs =
        Inr [mean_entropy_nonempty sample, log 10 (real (length bs + 1)),
             real (extract_features_hint file_path)]"
    by (auto simp: extract_features_chunks_eq)
  have range: "(snd (get_best_algo cd data) = Inr l \<longrightarrow> l \<le> 2) \<and>
      (snd (get_best_label cd data) = Inr l \<longrightarrow> l \<le> 2)"
    using label_range_algo [of cd data l] label_range_label [of cd data l] by blast
  have code: "0 < length data \<and> length data < 2 ^ 64 \<and>
    zstd_compress cd 3 data = Inr zout \<and> length zout < 2 ^ 64 \<longrightarrow>
      snd (get_best_algo cd data) =
        Inr (label_code (decide (length data)
               (case brotli_compress cd None data of
                  Inr out \<Rightarrow> length out | Inl _ \<Rightarrow> length data)
               (length zout))) \<and>
      snd (get_best_label cd data) =
        Inr (label_code (decide (length data)
               (case brotli_compress cd (Some 4) data of
                  Inr out \<Rightarrow> length out | Inl _ \<Rightarrow> length data)
               (length zout)))"
    by (simp add: get_best_algo_decide get_best_label_decide)
  have empty: "snd (get_best_algo cd []) = Inr (label_code NoCompression) \<and>
      snd (get_best_label cd []) = Inr (label_code NoCompression)"
    by (simp add: get_best_algo_def get_best_label_def)
  have names: "label_code AlgoA = 0 \<and> label_code AlgoB = 1 \<and> label_code NoCompression = 2 \<and>
      algo_name (label_code AlgoA) = Inr ''Brotli'' \<and>
      algo_name (label_code AlgoB) = Inr ''Zstd'' \<and>
      algo_name (label_code NoCompression) = Inr ''None''"
    by (simp add: algo_name_def)
  have synth: "map length X_synthetic = [3, 3, 3, 3, 3, 3] \<and>
      map (\<lambda>row. row ! 2) X_synthetic = [0, 0, 1, 1, 1, 1] \<and>
      set y_synthetic \<subseteq> {0, 1, 2}"
    using synthetic_rows_shape synthetic_third_column by simp
  have nolog: "\<forall>S. log 10 (real (S + 1)) \<noteq> X_synthetic ! 0 ! 1"
  proof
    fix S
    show "log 10 (real (S + 1)) \<noteq> X_synthetic ! 0 ! 1"
      unfolding synthetic_first_row(2) by (rule no_size_has_log_half)
  qed
  from rows range code empty names synth nolog show ?thesis
    by (intro conjI) (elim conjE, assumption)+
qed

theorem feature_and_label_layout_witness:
  "snd (get_best_algo (fixed_size_codecs 850 850 900) (replicate 1000 65)) = Inr 0 \<and>
   snd (get_best_label (fixed_size_codecs 850 850 900) (replicate 1000 65)) = Inr 0 \<and>
   (0 :: nat) \<le> 2 \<and>
   0 < length (replicate 1000 (65 :: byte)) \<and> length (replicate 1000 (65 :: byte)) < 2 ^ 64 \<and>
   zstd_compress (fixed_size_codecs 850 850 900) 3 (replicate 1000 65) = Inr (replicate 900 0) \<and>
   length (replicate 900 (0 :: byte)) < 2 ^ 64 \<and>
   snd (get_best_algo (fixed_size_codecs 850 850 900) (replicate 1000 65)) =
     Inr (label_code (decide (length (replicate 1000 (65 :: byte)))
            (case brotli_compress (fixed_size_codecs 850 850 900) None (replicate 1000 65) of
               Inr out \<Rightarrow> length out | Inl _ \<Rightarrow> length (replicate 1000 (65 :: byte)))
            (length (replicate 900 (0 :: byte))))) \<and>
   (\<exists>sample h.
      chunks [7, 7] = Inr sample \<and> hint ''a.txt'' = Inr h \<and>
      features ''a.txt'' [7, 7] =
        Inr [mean_entropy_nonempty sample, log 10 (real (length [7, 7 :: byte] + 1)), real h] \<and>
      extract_features ''silesia/xml'' [7, 7] =
        Inr [mean_entropy_nonempty sample, log 10 (real (length [7, 7 :: byte] + 1)),
             real (extract_features_hint ''silesia/xml'')])"
proof -
  have z: "zstd_compress (fixed_size_codecs 850 850 900) 3 (replicate 1000 65) = Inr (replicate 900 0)"
    by (simp add: fixed_size_codecs_def)
  have len: "0 < length (replicate 1000 (65 :: byte))" "length (replicate 1000 (65 :: byte)) < 2 ^ 64"
    "length (replicate 900 (0 :: byte)) < 2 ^ 64"
    by simp_all
  have a: "snd (get_best_algo (fixed_size_codecs 850 850 900) (replicate 1000 65)) = Inr 0"
    using get_best_algo_decide [of "replicate 1000 65" "fixed_size_codecs 850 850 900" "replicate 900 0"] z
    by (simp add: fixed_size_codecs_def decide_exact)
  have b: "snd (get_best_label (fixed_size_codecs 850 850 900) (replicate 1000 65)) = Inr 0"
    using get_best_label_decide [of "replicate 1000 65" "fixed_size_codecs 850 850 900" "replicate 900 0"] z
    by (simp add: fixed_size_codecs_def decide_exact)
  note t = feature_and_label_layout [where bs = "[7, 7]" and filename = "''a.txt''"
      and file_path = "''silesia/xml''" and cd = "fixed_size_codecs 850 850 900"
      and data = "replicate 1000 65" and l = 0 and zout = "replicate 900 0"]
  from t a b z len show ?thesis by blast
qed

end
